theory Spec2Isabelle
  imports Complex_Main
begin

section \<open>Python strings\<close>

text \<open>
  A Python \<open>str\<close> is a sequence of Unicode code points; it is modelled as the list of
  its code points, so that \<open>length\<close> is Python's \<open>len\<close>.
\<close>

type_synonym pystr = "nat list"

definition py :: "string \<Rightarrow> pystr" where
  "py s = map of_char s"

definition NL :: nat where "NL = 10"

definition SP :: nat where "SP = 32"

text \<open>
  The characters for which \<open>str.isspace\<close> holds. Both \<open>str.strip()\<close> (without argument)
  and the class \<open>\s\<close> of \<open>re\<close> on \<open>str\<close> patterns use this set.
\<close>

definition is_space :: "nat \<Rightarrow> bool" where
  "is_space c \<longleftrightarrow>
     (9 \<le> c \<and> c \<le> 13) \<or> (28 \<le> c \<and> c \<le> 32) \<or> c = 133 \<or> c = 160 \<or> c = 5760 \<or>
     (8192 \<le> c \<and> c \<le> 8202) \<or> c = 8232 \<or> c = 8233 \<or> c = 8239 \<or> c = 8287 \<or> c = 12288"

text \<open>The character class \<open>[.!?]\<close>.\<close>

definition is_punct :: "nat \<Rightarrow> bool" where
  "is_punct c \<longleftrightarrow> c = 46 \<or> c = 33 \<or> c = 63"

text \<open>\<open>s.strip()\<close>: leading and trailing whitespace removed.\<close>

definition strip :: "pystr \<Rightarrow> pystr" where
  "strip s = rev (dropWhile is_space (rev (dropWhile is_space s)))"

text \<open>
  \<open>s.replace(old, new)\<close> for a non-empty \<open>old\<close> (every call of the program passes a
  non-empty literal): the occurrences of \<open>old\<close> are found from left to right, without
  overlap, and each is replaced by \<open>new\<close>.
\<close>

fun replace :: "pystr \<Rightarrow> pystr \<Rightarrow> pystr \<Rightarrow> pystr" where
  "replace old new [] = []"
| "replace old new (c # cs) =
     (if take (length old) (c # cs) = old
      then new @ replace old new (drop (length old - 1) cs)
      else c # replace old new cs)"

text \<open>
  \<open>re.sub(r"\n{3,}", "\n\n", text)\<close>: every maximal run of three or more newlines becomes
  two newlines.
\<close>

function sub_newlines :: "pystr \<Rightarrow> pystr" where
  "sub_newlines [] = []"
| "sub_newlines (c # cs) =
     (if c = NL then
        (let run = takeWhile (\<lambda>x. x = NL) cs; rest = dropWhile (\<lambda>x. x = NL) cs
         in (if 2 \<le> length run then [NL, NL] else c # run) @ sub_newlines rest)
      else c # sub_newlines cs)"
  by pat_completeness auto
termination
  by (relation "measure length") (auto simp: less_Suc_eq_le length_dropWhile_le)

text \<open>\<open>re.sub(r" {2,}", " ", text)\<close>: every maximal run of two or more spaces becomes one.\<close>

function sub_spaces :: "pystr \<Rightarrow> pystr" where
  "sub_spaces [] = []"
| "sub_spaces (c # cs) =
     (if c = SP then SP # sub_spaces (dropWhile (\<lambda>x. x = SP) cs)
      else c # sub_spaces cs)"
  by pat_completeness auto
termination
  by (relation "measure length") (auto simp: less_Suc_eq_le length_dropWhile_le)

text \<open>
  \<open>re.sub(r"\s+([.!?])", r"\1", text)\<close>: a maximal run of whitespace that is followed by
  one of \<open>.\<close>, \<open>!\<close>, \<open>?\<close> is removed; any other run of whitespace stays.
\<close>

function sub_space_punct :: "pystr \<Rightarrow> pystr" where
  "sub_space_punct [] = []"
| "sub_space_punct (c # cs) =
     (if is_space c then
        (case dropWhile is_space cs of
           [] \<Rightarrow> c # cs
         | p # ps \<Rightarrow>
             if is_punct p then p # sub_space_punct ps
             else (c # takeWhile is_space cs) @ sub_space_punct (p # ps))
      else c # sub_space_punct cs)"
  by pat_completeness auto
termination
proof (relation "measure length")
  fix c p :: nat and cs ps :: "nat list"
  assume "dropWhile is_space cs = p # ps"
  then have "length (p # ps) \<le> length cs"
    by (metis length_dropWhile_le)
  then show "(ps, c # cs) \<in> measure length" by simp
next
  fix c p :: nat and cs ps :: "nat list"
  assume "dropWhile is_space cs = p # ps"
  then have "length (p # ps) \<le> length cs"
    by (metis length_dropWhile_le)
  then show "(p # ps, c # cs) \<in> measure length" by simp
qed auto

section \<open>Text processor\<close>

subsection \<open>\<open>TextProcessor.clean_text\<close>\<close>

text \<open>
  The two quotation-mark lines of the source are, as the file has them,
  \<^verbatim>\<open>text = text.replace('"', '"').replace('"', '"')\<close> and
  \<^verbatim>\<open>text = text.replace(""", "'").replace(""", "'")\<close>.
  The first replaces the character \<open>"\<close> (34) by itself, twice. In the second, \<open>"""\<close>
  opens a triple-quoted literal that runs to the next \<open>"""\<close>: the line is one call of
  \<open>replace\<close> whose first argument is the 15-character string \<^verbatim>\<open>, "'").replace(\<close>
  and whose second argument is the one-character string \<open>'\<close> (39).
\<close>

definition quote_literal :: pystr where
  "quote_literal = py '', '' @ [34, 39, 34] @ py '').replace(''"

definition clean_text :: "pystr \<Rightarrow> pystr" where
  "clean_text text =
     (let text = sub_newlines text;
          text = sub_spaces text;
          text = replace [34] [34] (replace [34] [34] text);
          text = replace quote_literal [39] text;
          text = sub_space_punct text
      in strip text)"

subsection \<open>\<open>TextProcessor.split_into_sentences\<close>\<close>

text \<open>
  \<open>re.split(r"(?<=[.!?])\s+", text)\<close>: the text is cut at every maximal run of whitespace
  that directly follows one of \<open>.\<close>, \<open>!\<close>, \<open>?\<close>; the run itself is dropped.
\<close>

function split_after_punct :: "pystr \<Rightarrow> pystr list" where
  "split_after_punct [] = [[]]"
| "split_after_punct (c # cs) =
     (if is_punct c \<and> cs \<noteq> [] \<and> is_space (hd cs)
      then [c] # split_after_punct (dropWhile is_space cs)
      else (case split_after_punct cs of
              [] \<Rightarrow> [[c]]
            | p # ps \<Rightarrow> (c # p) # ps))"
  by pat_completeness auto
termination
  by (relation "measure length") (auto simp: less_Suc_eq_le length_dropWhile_le)

definition split_into_sentences :: "pystr \<Rightarrow> pystr list" where
  "split_into_sentences text =
     map strip (filter (\<lambda>s. strip s \<noteq> []) (split_after_punct text))"

subsection \<open>\<open>TextProcessor.intelligent_text_splitting\<close>\<close>

text \<open>\<open>text.split("\n\n")\<close>.\<close>

fun split_blank :: "pystr \<Rightarrow> pystr list" where
  "split_blank [] = [[]]"
| "split_blank [c] = [[c]]"
| "split_blank (c # d # ds) =
     (if c = NL \<and> d = NL then [] # split_blank ds
      else (case split_blank (d # ds) of
              [] \<Rightarrow> [[c]]
            | p # ps \<Rightarrow> (c # p) # ps))"

definition paragraphs_of :: "pystr \<Rightarrow> pystr list" where
  "paragraphs_of text = map strip (filter (\<lambda>p. strip p \<noteq> []) (split_blank text))"

text \<open>
  The state of the loops is the pair \<open>(segments, current_segment)\<close>. The body of the
  inner loop, for one sentence:
\<close>

type_synonym seg_state = "pystr list \<times> pystr"

definition sentence_step :: "int \<Rightarrow> pystr \<Rightarrow> seg_state \<Rightarrow> seg_state" where
  "sentence_step target_length sentence st =
     (case st of (segments, current_segment) \<Rightarrow>
        if int (length current_segment) + int (length sentence) > target_length
           \<and> current_segment \<noteq> []
        then (segments @ [strip current_segment], sentence @ [SP])
        else (segments, current_segment @ sentence @ [SP]))"

text \<open>The \<open>else\<close> branch of the outer loop, for a paragraph that is kept whole:\<close>

definition whole_paragraph_step :: "int \<Rightarrow> pystr \<Rightarrow> seg_state \<Rightarrow> seg_state" where
  "whole_paragraph_step target_length paragraph st =
     (case st of (segments, current_segment) \<Rightarrow>
        if int (length current_segment) + int (length paragraph) > target_length
           \<and> current_segment \<noteq> []
        then (segments @ [strip current_segment], paragraph @ [NL, NL])
        else (segments, current_segment @ paragraph @ [NL, NL]))"

text \<open>
  The body of the outer loop. The test \<open>len(paragraph) > target_length * 1.5\<close> multiplies
  in double precision; it is written on integers, \<open>2 * len(paragraph) > 3 * target_length\<close>.
  For a \<open>target_length\<close> of at most \<open>2^51\<close> the product is exact and the two tests are the
  same; for a larger one that still converts to a double the product is at least \<open>2^51\<close>,
  more than the length of any string a machine holds, and both tests are false. A
  \<open>target_length\<close> too large to convert to a double (about \<open>1.8e308\<close> and more) is outside
  the model.
\<close>

definition paragraph_step :: "int \<Rightarrow> pystr \<Rightarrow> seg_state \<Rightarrow> seg_state" where
  "paragraph_step target_length paragraph st =
     (if 2 * int (length paragraph) > 3 * target_length
      then fold (sentence_step target_length) (split_into_sentences paragraph) st
      else whole_paragraph_step target_length paragraph st)"

definition intelligent_text_splitting :: "pystr \<Rightarrow> int \<Rightarrow> pystr list" where
  "intelligent_text_splitting text target_length =
     (let text = clean_text text;
          paragraphs = paragraphs_of text;
          (segments, current_segment) = fold (paragraph_step target_length) paragraphs ([], [])
      in if strip current_segment \<noteq> [] then segments @ [strip current_segment]
         else segments)"

section \<open>Configuration (\<open>config.py\<close>)\<close>

text \<open>
  Keyword arguments of the synthesis call: a dictionary from parameter names to numbers.
  The program never computes with the numbers; a decimal literal stands for itself.
\<close>

type_synonym params = "pystr \<rightharpoonup> rat"

definition VOICE_PRESETS :: "pystr \<rightharpoonup> params" where
  "VOICE_PRESETS =
     [py ''neutral'' \<mapsto> [py ''exaggeration'' \<mapsto> 5 / 10, py ''cfg_weight'' \<mapsto> 5 / 10],
      py ''calm'' \<mapsto> [py ''exaggeration'' \<mapsto> 3 / 10, py ''cfg_weight'' \<mapsto> 7 / 10]]"

definition DEFAULT_VOICE_PATTERN :: "pystr list" where
  "DEFAULT_VOICE_PATTERN = [py ''neutral'', py ''calm'', py ''neutral'']"

definition DEFAULT_SEGMENT_LENGTH :: int where
  "DEFAULT_SEGMENT_LENGTH = 250"

definition DEFAULT_OUTPUT_DIR :: pystr where
  "DEFAULT_OUTPUT_DIR = py ''voice_output''"

section \<open>Story documents\<close>

text \<open>
  A story document is a dictionary read from JSON or built by auto-ingestion. Every key
  the program reads is read with \<open>.get\<close>, so each field is optional: \<open>None\<close> is an
  absent key.
\<close>

record segment =
  seg_text :: "pystr option"
  seg_voice_style :: "pystr option"
  seg_audio_prompt :: "pystr option"
  seg_tts_params :: "params option"

record settings =
  set_voice_style :: "pystr option"
  set_audio_prompt :: "pystr option"

record story =
  doc_title :: "pystr option"
  doc_description :: "pystr option"
  doc_settings :: "settings option"
  doc_create_full_audio :: "bool option"
  doc_segments :: "segment list option"

section \<open>Errors, output and external collaborators\<close>

text \<open>A value of type \<open>error\<close> is a raised instance of \<open>Exception\<close>.\<close>

datatype error =
    FileNotFoundError pystr
  | ZeroDivisionError
  | KeyError pystr
  | ExternalError pystr

text \<open>One constructor for each \<open>print\<close> statement, with the values it interpolates.\<close>

datatype message =
    LoadingModel                        \<comment> \<open>\<open>Loading Chatterbox TTS model...\<close>\<close>
  | ModelLoaded                         \<comment> \<open>\<open>Model loaded successfully!\<close>\<close>
  | Concatenating nat                   \<comment> \<open>\<open>Concatenating {len(audio_files)} segments...\<close>\<close>
  | CompleteAudioSaved pystr            \<comment> \<open>\<open>Complete audio saved: {output_path}\<close>\<close>
  | ProcessingWarStory pystr            \<comment> \<open>\<open>Processing war story: {title}\<close>\<close>
  | GeneratingAudioFor nat              \<comment> \<open>\<open>Generating audio for {len(segments)} segments...\<close>\<close>
  | ProcessingSegment nat nat pystr     \<comment> \<open>\<open>Processing segment {i+1}/{len(segments)}: {voice_style} style\<close>\<close>
  | Saved pystr                         \<comment> \<open>\<open>Saved: {segment_filename}\<close>\<close>
  | NoJsonFilesFound pystr              \<comment> \<open>\<open>No JSON files found in {json_directory}\<close>\<close>
  | FoundStoryFiles nat                 \<comment> \<open>\<open>Found {len(json_files)} story files to process...\<close>\<close>
  | BlankLineAndRule                    \<comment> \<open>an empty line, then fifty \<open>=\<close>\<close>
  | Rule                                \<comment> \<open>fifty \<open>=\<close>\<close>
  | Processing pystr                    \<comment> \<open>\<open>Processing: {json_file.name}\<close>\<close>
  | SuccessfullyProcessed pystr         \<comment> \<open>\<open>Successfully processed {json_file.name}\<close>\<close>
  | ErrorProcessing pystr error         \<comment> \<open>\<open>Error processing {json_file.name}: {str(e)}\<close>\<close>
  | ReadingTextFile pystr               \<comment> \<open>\<open>Reading text file: {text_path.name}\<close>\<close>
  | SplittingText int                   \<comment> \<open>\<open>Splitting text into segments (target length: {n} chars)\<close>\<close>
  | GeneratedSegments nat               \<comment> \<open>\<open>Generated {len(story_segments)} segments from text\<close>\<close>
  | SavedJson pystr                     \<comment> \<open>\<open>Saved JSON to: {output_path}\<close>\<close>
  | FileNotFound pystr                  \<comment> \<open>\<open>File not found: {input_file}\<close>\<close>
  | ProcessingLargeText pystr           \<comment> \<open>\<open>Processing large text: {input_file}\<close>\<close>
  | GeneratedAudioFiles nat             \<comment> \<open>\<open>Generated {len(audio_files)} audio files\<close>\<close>
  | AudioSaved pystr                    \<comment> \<open>\<open>Audio saved: {output}\<close>\<close>
  | GeneratingWithStyle pystr           \<comment> \<open>\<open>Generating audio with {voice_style} style\<close>\<close>
  | AudioPromptNotFound pystr           \<comment> \<open>\<open>Audio prompt file not found: {audio_path}\<close>\<close>
  | ProceedingWithoutCloning            \<comment> \<open>\<open>Proceeding without voice cloning...\<close>\<close>

text \<open>
  What a run does to the outside world, in order: lines printed and calls of the
  libraries that create or write something. \<open>'w\<close> is the type of audio tensors.
\<close>

datatype 'w effect =
    Print message
  | Mkdir pystr                                 \<comment> \<open>\<open>Path(output_dir).mkdir(exist_ok=True)\<close>\<close>
  | LoadModel pystr                             \<comment> \<open>\<open>ChatterboxTTS.from_pretrained(device=device)\<close>\<close>
  | Generate pystr "pystr option" params        \<comment> \<open>\<open>self.model.generate(text[, audio_prompt_path=...], **params)\<close>\<close>
  | SaveAudio pystr 'w                          \<comment> \<open>\<open>ta.save(file_path, audio_tensor, self.model.sr)\<close>\<close>
  | ConcatAudio "pystr list" pystr              \<comment> \<open>the tensor work of \<open>concatenate_segments\<close>\<close>
  | DumpJson pystr story                        \<comment> \<open>\<open>json.dump(story_data, f, indent=4, ensure_ascii=False)\<close>\<close>

text \<open>
  The libraries and the file system, as the program sees them: each call returns a value
  or raises. They are parameters of the model.
  \<^item> \<open>path_exists p\<close> is \<open>Path(p).exists()\<close>, \<open>path_name p\<close> is \<open>Path(p).name\<close>,
    \<open>path_stem p\<close> is \<open>Path(p).stem\<close>, \<open>path_join d f\<close> is \<open>str(Path(d) / f)\<close>;
  \<^item> \<open>glob_json d\<close> is \<open>list(Path(d).glob("*.json"))\<close>;
  \<^item> \<open>str_title s\<close> is \<open>s.title()\<close>;
  \<^item> \<open>read_text p\<close> opens \<open>p\<close> as UTF-8 and reads it; \<open>json_load p\<close> opens \<open>p\<close> and
    calls \<open>json.load\<close>; \<open>json_dump p d\<close> opens \<open>p\<close> for writing and calls \<open>json.dump\<close>;
  \<^item> \<open>mkdir d\<close> is \<open>Path(d).mkdir(exist_ok=True)\<close>;
  \<^item> \<open>from_pretrained device\<close> loads the synthesis model, \<open>model_generate\<close> is its method
    \<open>generate\<close> (text, optional audio prompt path, keyword parameters);
  \<^item> \<open>ta_save\<close> is \<open>torchaudio.save\<close>, and \<open>concat_tensors\<close> is the loading, padding,
    concatenating and saving that \<open>concatenate_segments\<close> does between its two prints.
\<close>

record 'w collaborators =
  path_exists :: "pystr \<Rightarrow> bool"
  path_name :: "pystr \<Rightarrow> pystr"
  path_stem :: "pystr \<Rightarrow> pystr"
  path_join :: "pystr \<Rightarrow> pystr \<Rightarrow> pystr"
  glob_json :: "pystr \<Rightarrow> pystr list"
  str_title :: "pystr \<Rightarrow> pystr"
  read_text :: "pystr \<Rightarrow> error + pystr"
  json_load :: "pystr \<Rightarrow> error + story"
  json_dump :: "pystr \<Rightarrow> story \<Rightarrow> error option"
  mkdir :: "pystr \<Rightarrow> error option"
  from_pretrained :: "pystr \<Rightarrow> error option"
  model_generate :: "pystr \<Rightarrow> pystr option \<Rightarrow> params \<Rightarrow> error + 'w"
  ta_save :: "pystr \<Rightarrow> 'w \<Rightarrow> error option"
  concat_tensors :: "pystr list \<Rightarrow> pystr \<Rightarrow> error option"

text \<open>A computation yields the effects it had and then a value or the exception raised.\<close>

type_synonym ('w, 'a) run = "'w effect list \<times> (error + 'a)"

definition ok :: "'a \<Rightarrow> ('w, 'a) run" where
  "ok x = ([], Inr x)"

definition raise :: "error \<Rightarrow> ('w, 'a) run" where
  "raise e = ([], Inl e)"

definition emit :: "'w effect \<Rightarrow> ('w, unit) run" where
  "emit e = ([e], Inr ())"

definition call :: "'w effect \<Rightarrow> error option \<Rightarrow> ('w, unit) run" where
  "call e r = ([e], case r of None \<Rightarrow> Inr () | Some err \<Rightarrow> Inl err)"

definition bind :: "('w, 'a) run \<Rightarrow> ('a \<Rightarrow> ('w, 'b) run) \<Rightarrow> ('w, 'b) run" where
  "bind m f =
     (case m of
        (es, Inl e) \<Rightarrow> (es, Inl e)
      | (es, Inr x) \<Rightarrow> (case f x of (es', r) \<Rightarrow> (es @ es', r)))"

definition lift :: "error + 'a \<Rightarrow> ('w, 'a) run" where
  "lift r = ([], r)"

text \<open>Python's truth value of an optional string: \<open>None\<close> and \<open>""\<close> are false.\<close>

definition truthy :: "pystr option \<Rightarrow> bool" where
  "truthy s \<longleftrightarrow> s \<noteq> None \<and> s \<noteq> Some []"

section \<open>Audio generator (\<open>audio_generator.py\<close>)\<close>

definition AudioGenerator_init :: "'w collaborators \<Rightarrow> pystr \<Rightarrow> ('w, unit) run" where
  "AudioGenerator_init ext device =
     bind (emit (Print LoadingModel)) (\<lambda>_.
     bind (call (LoadModel device) (from_pretrained ext device)) (\<lambda>_.
     emit (Print ModelLoaded)))"

definition generate_segment_audio ::
  "'w collaborators \<Rightarrow> pystr \<Rightarrow> pystr \<Rightarrow> pystr option \<Rightarrow> params option \<Rightarrow> ('w, 'w) run" where
  "generate_segment_audio ext text voice_style audio_prompt_path custom_params =
     (case VOICE_PRESETS (py ''neutral'') of
        None \<Rightarrow> raise (KeyError (py ''neutral''))
      | Some neutral \<Rightarrow>
          (let params = (case VOICE_PRESETS voice_style of
                           Some preset \<Rightarrow> preset
                         | None \<Rightarrow> neutral);
               params = (case custom_params of
                           None \<Rightarrow> params
                         | Some custom \<Rightarrow>
                             if custom = Map.empty then params else params ++ custom)
           in if truthy audio_prompt_path
              then ([Generate text audio_prompt_path params],
                    model_generate ext text audio_prompt_path params)
              else ([Generate text None params], model_generate ext text None params)))"

definition concatenate_segments ::
  "'w collaborators \<Rightarrow> pystr list \<Rightarrow> pystr \<Rightarrow> ('w, unit) run" where
  "concatenate_segments ext audio_files output_path =
     bind (emit (Print (Concatenating (length audio_files)))) (\<lambda>_.
     bind (call (ConcatAudio audio_files output_path)
             (concat_tensors ext audio_files output_path)) (\<lambda>_.
     emit (Print (CompleteAudioSaved output_path))))"

definition save_audio :: "'w collaborators \<Rightarrow> 'w \<Rightarrow> pystr \<Rightarrow> ('w, unit) run" where
  "save_audio ext audio_tensor file_path =
     call (SaveAudio file_path audio_tensor) (ta_save ext file_path audio_tensor)"

section \<open>Story narrator (\<open>story_narrator.py\<close>)\<close>

text \<open>
  The narrator keeps \<open>output_dir\<close> and its audio generator; \<open>output_dir\<close> is passed to
  the functions that use it. \<open>StoryNarrator.generate_segment_audio\<close> only forwards its
  arguments to the audio generator's function of the same name.
\<close>

text \<open>\<open>str(n)\<close> for a natural number, and the format \<open>{n:03d}\<close>.\<close>

fun str_nat :: "nat \<Rightarrow> pystr" where
  "str_nat n = (if n < 10 then [48 + n] else str_nat (n div 10) @ [48 + n mod 10])"

definition format_03d :: "nat \<Rightarrow> pystr" where
  "format_03d n = replicate (3 - length (str_nat n)) 48 @ str_nat n"

definition StoryNarrator_init :: "'w collaborators \<Rightarrow> pystr \<Rightarrow> pystr \<Rightarrow> ('w, unit) run" where
  "StoryNarrator_init ext device output_dir =
     bind (call (Mkdir output_dir) (mkdir ext output_dir)) (\<lambda>_.
     AudioGenerator_init ext device)"

text \<open>
  The body of the loop of \<open>process_war_story\<close> for the pair \<open>(i, segment)\<close> of
  \<open>enumerate(segments)\<close>; \<open>n\<close> is \<open>len(segments)\<close>. It yields the path of the file it
  saved, or \<open>None\<close> when the segment is skipped by \<open>continue\<close>.
\<close>

definition process_segment ::
  "'w collaborators \<Rightarrow> pystr \<Rightarrow> pystr \<Rightarrow> settings \<Rightarrow> nat \<Rightarrow> nat \<times> segment \<Rightarrow>
   ('w, pystr option) run" where
  "process_segment ext output_dir story_name global_settings n x =
     (case x of (i, segment) \<Rightarrow>
        let segment_text = (case seg_text segment of Some t \<Rightarrow> t | None \<Rightarrow> [])
        in if strip segment_text = [] then ok None
           else
             let voice_style =
                   (case seg_voice_style segment of
                      Some v \<Rightarrow> v
                    | None \<Rightarrow> (case set_voice_style global_settings of
                                 Some g \<Rightarrow> g
                               | None \<Rightarrow> py ''neutral''));
                 audio_prompt =
                   (case seg_audio_prompt segment of
                      Some a \<Rightarrow> Some a
                    | None \<Rightarrow> set_audio_prompt global_settings);
                 custom_params =
                   (case seg_tts_params segment of Some c \<Rightarrow> c | None \<Rightarrow> Map.empty)
             in bind (emit (Print (ProcessingSegment (i + 1) n voice_style))) (\<lambda>_.
                bind (generate_segment_audio ext segment_text voice_style audio_prompt
                        (Some custom_params)) (\<lambda>wav.
                let segment_filename =
                      story_name @ py ''_segment_'' @ format_03d (i + 1) @ py ''.wav'';
                    segment_path = path_join ext output_dir segment_filename
                in bind (save_audio ext wav segment_path) (\<lambda>_.
                   bind (emit (Print (Saved segment_filename))) (\<lambda>_.
                   ok (Some segment_path))))))"

fun segments_loop ::
  "'w collaborators \<Rightarrow> pystr \<Rightarrow> pystr \<Rightarrow> settings \<Rightarrow> nat \<Rightarrow> (nat \<times> segment) list \<Rightarrow>
   pystr list \<Rightarrow> ('w, pystr list) run" where
  "segments_loop ext output_dir story_name global_settings n [] generated_files =
     ok generated_files"
| "segments_loop ext output_dir story_name global_settings n (x # xs) generated_files =
     bind (process_segment ext output_dir story_name global_settings n x) (\<lambda>r.
     segments_loop ext output_dir story_name global_settings n xs
       (case r of None \<Rightarrow> generated_files | Some path \<Rightarrow> generated_files @ [path]))"

definition process_war_story ::
  "'w collaborators \<Rightarrow> pystr \<Rightarrow> story \<Rightarrow> pystr \<Rightarrow> ('w, pystr list) run" where
  "process_war_story ext output_dir story_data story_name =
     (let segments = (case doc_segments story_data of Some ss \<Rightarrow> ss | None \<Rightarrow> []);
          global_settings =
            (case doc_settings story_data of
               Some gs \<Rightarrow> gs
             | None \<Rightarrow> \<lparr>set_voice_style = None, set_audio_prompt = None\<rparr>)
      in bind (emit (Print (ProcessingWarStory
                 (case doc_title story_data of Some t \<Rightarrow> t | None \<Rightarrow> py ''Untitled'')))) (\<lambda>_.
         bind (emit (Print (GeneratingAudioFor (length segments)))) (\<lambda>_.
         bind (segments_loop ext output_dir story_name global_settings (length segments)
                 (zip [0..<length segments] segments) []) (\<lambda>generated_files.
         if (case doc_create_full_audio story_data of Some b \<Rightarrow> b | None \<Rightarrow> True)
            \<and> generated_files \<noteq> []
         then bind (concatenate_segments ext generated_files
                      (path_join ext output_dir (story_name @ py ''_complete.wav''))) (\<lambda>_.
              ok generated_files)
         else ok generated_files))))"

definition process_story_from_file ::
  "'w collaborators \<Rightarrow> pystr \<Rightarrow> pystr \<Rightarrow> ('w, pystr list) run" where
  "process_story_from_file ext output_dir json_file_path =
     bind (lift (json_load ext json_file_path)) (\<lambda>story_data.
     process_war_story ext output_dir story_data (path_stem ext json_file_path))"

text \<open>
  The body of the loop of \<open>batch_process_stories\<close>: the \<open>try\<close> block with its handler
  \<open>except Exception\<close>. It never raises.
\<close>

definition batch_file ::
  "'w collaborators \<Rightarrow> pystr \<Rightarrow> pystr \<Rightarrow> (pystr \<rightharpoonup> pystr list) \<Rightarrow>
   'w effect list \<times> (pystr \<rightharpoonup> pystr list)" where
  "batch_file ext output_dir json_file results =
     (let banner = [Print BlankLineAndRule, Print (Processing (path_name ext json_file)),
                    Print Rule]
      in case process_story_from_file ext output_dir json_file of
           (es, Inr generated_files) \<Rightarrow>
             (banner @ es @ [Print (SuccessfullyProcessed (path_name ext json_file))],
              results(path_stem ext json_file \<mapsto> generated_files))
         | (es, Inl e) \<Rightarrow>
             (banner @ es @ [Print (ErrorProcessing (path_name ext json_file) e)],
              results(path_stem ext json_file \<mapsto> [])))"

fun batch_loop ::
  "'w collaborators \<Rightarrow> pystr \<Rightarrow> pystr list \<Rightarrow> (pystr \<rightharpoonup> pystr list) \<Rightarrow>
   'w effect list \<times> (pystr \<rightharpoonup> pystr list)" where
  "batch_loop ext output_dir [] results = ([], results)"
| "batch_loop ext output_dir (json_file # rest) results =
     (case batch_file ext output_dir json_file results of
        (es, results') \<Rightarrow>
          (case batch_loop ext output_dir rest results' of
             (es', results'') \<Rightarrow> (es @ es', results'')))"

definition batch_process_stories ::
  "'w collaborators \<Rightarrow> pystr \<Rightarrow> pystr \<Rightarrow> ('w, pystr \<rightharpoonup> pystr list) run" where
  "batch_process_stories ext output_dir json_directory =
     (let json_files = glob_json ext json_directory
      in if json_files = [] then ([Print (NoJsonFilesFound json_directory)], Inr Map.empty)
         else (case batch_loop ext output_dir json_files Map.empty of
                 (es, results) \<Rightarrow>
                   (Print (FoundStoryFiles (length json_files)) # es, Inr results)))"

section \<open>Auto-ingestion (\<open>text_processor.py\<close>)\<close>

text \<open>
  The loop that wraps the segment texts. Its state is \<open>story_segments\<close> and
  \<open>voice_cycle_index\<close>. The operator \<open>%\<close> raises \<open>ZeroDivisionError\<close> for an empty
  pattern.
\<close>

fun story_segments_loop ::
  "pystr list \<Rightarrow> pystr list \<Rightarrow> segment list \<times> nat \<Rightarrow> error + segment list" where
  "story_segments_loop voice_style_pattern [] (story_segments, voice_cycle_index) =
     Inr story_segments"
| "story_segments_loop voice_style_pattern (segment_text # rest)
       (story_segments, voice_cycle_index) =
     (if length voice_style_pattern = 0 then Inl ZeroDivisionError
      else
        let voice_style =
              voice_style_pattern ! (voice_cycle_index mod length voice_style_pattern);
            segment =
              \<lparr>seg_text = Some (strip segment_text),
               seg_voice_style =
                 (if voice_style \<noteq> py ''neutral'' then Some voice_style else None),
               seg_audio_prompt = None,
               seg_tts_params = None\<rparr>
        in story_segments_loop voice_style_pattern rest
             (story_segments @ [segment], voice_cycle_index + 1))"

text \<open>The keyword arguments of \<open>auto_ingest_text_file\<close>; \<open>None\<close> is an argument not given.\<close>

record ingest_kwargs =
  kw_title :: "pystr option"
  kw_description :: "pystr option"
  kw_target_segment_length :: "int option"
  kw_voice_style_pattern :: "pystr list option"
  kw_global_audio_prompt :: "pystr option"
  kw_output_json_path :: "pystr option"

definition no_kwargs :: ingest_kwargs where
  "no_kwargs =
     \<lparr>kw_title = None, kw_description = None, kw_target_segment_length = None,
      kw_voice_style_pattern = None, kw_global_audio_prompt = None,
      kw_output_json_path = None\<rparr>"

text \<open>The block \<open>Set defaults\<close> and the default of \<open>target_segment_length\<close>.\<close>

definition ingest_title :: "'w collaborators \<Rightarrow> pystr \<Rightarrow> ingest_kwargs \<Rightarrow> pystr" where
  "ingest_title ext text_file_path kwargs =
     (case kw_title kwargs of
        None \<Rightarrow>
          str_title ext
            (replace (py ''_'') (py '' '')
               (replace (py ''-'') (py '' '') (path_stem ext text_file_path)))
      | Some title \<Rightarrow> title)"

definition ingest_pattern :: "ingest_kwargs \<Rightarrow> pystr list" where
  "ingest_pattern kwargs =
     (case kw_voice_style_pattern kwargs of
        None \<Rightarrow> DEFAULT_VOICE_PATTERN
      | Some voice_style_pattern \<Rightarrow> voice_style_pattern)"

definition ingest_length :: "ingest_kwargs \<Rightarrow> int" where
  "ingest_length kwargs =
     (case kw_target_segment_length kwargs of
        None \<Rightarrow> DEFAULT_SEGMENT_LENGTH
      | Some target_segment_length \<Rightarrow> target_segment_length)"

text \<open>
  The block \<open>Build the complete story structure\<close>, with the global audio prompt added
  when it is given and not empty.
\<close>

definition build_story_data ::
  "'w collaborators \<Rightarrow> pystr \<Rightarrow> ingest_kwargs \<Rightarrow> segment list \<Rightarrow> story" where
  "build_story_data ext text_file_path kwargs story_segments =
     \<lparr>doc_title = Some (ingest_title ext text_file_path kwargs),
      doc_description =
        Some (case kw_description kwargs of
                None \<Rightarrow> py ''Auto-generated from '' @ path_name ext text_file_path
              | Some description \<Rightarrow>
                  if description \<noteq> [] then description
                  else py ''Auto-generated from '' @ path_name ext text_file_path),
      doc_settings =
        Some \<lparr>set_voice_style = Some (py ''neutral''),
              set_audio_prompt =
                (if truthy (kw_global_audio_prompt kwargs)
                 then kw_global_audio_prompt kwargs else None)\<rparr>,
      doc_create_full_audio = Some True,
      doc_segments = Some story_segments\<rparr>"

text \<open>The block \<open>Save JSON if path provided\<close>.\<close>

definition save_story_json :: "'w collaborators \<Rightarrow> ingest_kwargs \<Rightarrow> story \<Rightarrow> ('w, unit) run" where
  "save_story_json ext kwargs story_data =
     (case kw_output_json_path kwargs of
        None \<Rightarrow> ok ()
      | Some output_path \<Rightarrow>
          if output_path = [] then ok ()
          else
            bind (call (DumpJson output_path story_data)
                    (json_dump ext output_path story_data)) (\<lambda>_.
            emit (Print (SavedJson output_path))))"

definition auto_ingest_text_file ::
  "'w collaborators \<Rightarrow> pystr \<Rightarrow> ingest_kwargs \<Rightarrow> ('w, story) run" where
  "auto_ingest_text_file ext text_file_path kwargs =
     (if \<not> path_exists ext text_file_path
      then raise (FileNotFoundError (py ''Text file not found: '' @ text_file_path))
      else
        bind (emit (Print (ReadingTextFile (path_name ext text_file_path)))) (\<lambda>_.
        bind (lift (read_text ext text_file_path)) (\<lambda>text_content.
        bind (emit (Print (SplittingText (ingest_length kwargs)))) (\<lambda>_.
        bind (lift (story_segments_loop (ingest_pattern kwargs)
                      (intelligent_text_splitting text_content (ingest_length kwargs))
                      ([], 0))) (\<lambda>story_segments.
        bind (emit (Print (GeneratedSegments (length story_segments)))) (\<lambda>_.
        bind (save_story_json ext kwargs
                (build_story_data ext text_file_path kwargs story_segments)) (\<lambda>_.
        ok (build_story_data ext text_file_path kwargs story_segments))))))))"

definition process_text_file_directly ::
  "'w collaborators \<Rightarrow> pystr \<Rightarrow> pystr \<Rightarrow> pystr option \<Rightarrow> ingest_kwargs \<Rightarrow>
   ('w, pystr list) run" where
  "process_text_file_directly ext output_dir text_file_path story_name kwargs =
     bind (auto_ingest_text_file ext text_file_path kwargs) (\<lambda>story_data.
     let story_name =
           (case story_name of None \<Rightarrow> path_stem ext text_file_path | Some name \<Rightarrow> name)
     in process_war_story ext output_dir story_data story_name)"

section \<open>Command line (\<open>main.py\<close>) and helpers (\<open>utils.py\<close>)\<close>

definition auto_mode ::
  "'w collaborators \<Rightarrow> pystr \<Rightarrow> pystr option \<Rightarrow> pystr \<Rightarrow> ('w, unit) run" where
  "auto_mode ext input_file voice_prompt device =
     (if \<not> path_exists ext input_file then emit (Print (FileNotFound input_file))
      else
        bind (emit (Print (ProcessingLargeText input_file))) (\<lambda>_.
        bind (StoryNarrator_init ext device DEFAULT_OUTPUT_DIR) (\<lambda>_.
        let kwargs =
              (if (case voice_prompt of
                     None \<Rightarrow> False
                   | Some p \<Rightarrow> p \<noteq> [] \<and> path_exists ext p)
               then no_kwargs\<lparr>kw_global_audio_prompt := voice_prompt\<rparr>
               else no_kwargs)
        in bind (process_text_file_directly ext DEFAULT_OUTPUT_DIR input_file None kwargs)
             (\<lambda>audio_files.
           emit (Print (GeneratedAudioFiles (length audio_files)))))))"

definition manual_mode ::
  "'w collaborators \<Rightarrow> pystr \<Rightarrow> pystr \<Rightarrow> pystr option \<Rightarrow> pystr \<Rightarrow> pystr \<Rightarrow> ('w, unit) run" where
  "manual_mode ext text voice_style voice_prompt output device =
     bind (emit (Print (GeneratingWithStyle voice_style))) (\<lambda>_.
     bind (StoryNarrator_init ext device DEFAULT_OUTPUT_DIR) (\<lambda>_.
     bind (generate_segment_audio ext text voice_style voice_prompt None) (\<lambda>wav.
     bind (save_audio ext wav output) (\<lambda>_.
     emit (Print (AudioSaved output))))))"

definition validate_audio_prompt :: "'w collaborators \<Rightarrow> pystr option \<Rightarrow> ('w, bool) run" where
  "validate_audio_prompt ext audio_path =
     (case audio_path of
        None \<Rightarrow> ok True
      | Some path \<Rightarrow>
          if \<not> path_exists ext path
          then bind (emit (Print (AudioPromptNotFound path))) (\<lambda>_.
               bind (emit (Print ProceedingWithoutCloning)) (\<lambda>_.
               ok False))
          else ok True)"

section \<open>Definitions used to state the properties\<close>

text \<open>
  A string is stripped when it is not empty and neither starts nor ends with whitespace.
\<close>

definition stripped :: "pystr \<Rightarrow> bool" where
  "stripped s \<longleftrightarrow> s \<noteq> [] \<and> \<not> is_space (hd s) \<and> \<not> is_space (last s)"

text \<open>The content of a string: its characters other than whitespace, in order.\<close>

definition non_space :: "pystr \<Rightarrow> pystr" where
  "non_space s = filter (\<lambda>c. \<not> is_space c) s"

text \<open>
  The units the segmenter accumulates: a sentence of a long paragraph, or a whole
  paragraph. \<open>unit_text\<close> is the text of a unit, \<open>unit_sep\<close> the separator the loop
  appends after it, and \<open>unit_step\<close> sends a unit through the loop body that handles it.
\<close>

datatype text_unit = Sentence pystr | Paragraph pystr

fun unit_text :: "text_unit \<Rightarrow> pystr" where
  "unit_text (Sentence s) = s"
| "unit_text (Paragraph p) = p"

fun unit_sep :: "text_unit \<Rightarrow> pystr" where
  "unit_sep (Sentence s) = [SP]"
| "unit_sep (Paragraph p) = [NL, NL]"

fun unit_step :: "int \<Rightarrow> text_unit \<Rightarrow> seg_state \<Rightarrow> seg_state" where
  "unit_step T (Sentence s) st = sentence_step T s st"
| "unit_step T (Paragraph p) st = whole_paragraph_step T p st"

text \<open>The units of one paragraph and of a whole input, in the order the loops visit them.\<close>

definition units_of_paragraph :: "int \<Rightarrow> pystr \<Rightarrow> text_unit list" where
  "units_of_paragraph T p =
     (if 2 * int (length p) > 3 * T then map Sentence (split_into_sentences p)
      else [Paragraph p])"

definition units_of :: "pystr \<Rightarrow> int \<Rightarrow> text_unit list" where
  "units_of text T = concat (map (units_of_paragraph T) (paragraphs_of (clean_text text)))"

text \<open>
  The block after the loops (the remaining accumulator is appended when it is not blank),
  and the state of the loops after a list of units.
\<close>

definition finish :: "seg_state \<Rightarrow> pystr list" where
  "finish st =
     (case st of (segments, current_segment) \<Rightarrow>
        if strip current_segment \<noteq> [] then segments @ [strip current_segment]
        else segments)"

definition run_units :: "int \<Rightarrow> text_unit list \<Rightarrow> seg_state" where
  "run_units T us = fold (unit_step T) us ([], [])"

text \<open>
  A segment is within the target when it has at most \<open>T\<close> characters or is one unit that
  is itself longer than \<open>T\<close>.
\<close>

definition within_target :: "int \<Rightarrow> text_unit list \<Rightarrow> pystr \<Rightarrow> bool" where
  "within_target T us s \<longleftrightarrow>
     int (length s) \<le> T \<or> (\<exists>u\<in>set us. s = unit_text u \<and> T < int (length (unit_text u)))"

text \<open>Invariants of the loops and the content a state holds.\<close>

definition bounded_state :: "int \<Rightarrow> text_unit list \<Rightarrow> seg_state \<Rightarrow> bool" where
  "bounded_state T us st \<longleftrightarrow>
     (\<forall>s\<in>set (fst st). within_target T us s) \<and>
     (snd st = [] \<or> within_target T us (strip (snd st)))"

definition state_content :: "seg_state \<Rightarrow> pystr" where
  "state_content st = non_space (concat (fst st) @ snd st)"

definition trimmed_state :: "seg_state \<Rightarrow> bool" where
  "trimmed_state st \<longleftrightarrow>
     (\<forall>s\<in>set (fst st). s \<noteq> [] \<and> strip s = s) \<and> (snd st = [] \<or> strip (snd st) \<noteq> [])"

text \<open>
  Projections of a trace: the paths given to \<open>ta.save\<close>, the styles printed by
  \<open>Processing segment ...\<close>, and the arguments of the calls of the synthesis model.
\<close>

fun saved_path_of :: "'w effect \<Rightarrow> pystr list" where
  "saved_path_of (SaveAudio path w) = [path]"
| "saved_path_of _ = []"

definition saved_paths :: "'w effect list \<Rightarrow> pystr list" where
  "saved_paths es = concat (map saved_path_of es)"

fun announced_style_of :: "'w effect \<Rightarrow> pystr list" where
  "announced_style_of (Print (ProcessingSegment k n style)) = [style]"
| "announced_style_of _ = []"

definition announced_styles :: "'w effect list \<Rightarrow> pystr list" where
  "announced_styles es = concat (map announced_style_of es)"

fun synthesis_call_of :: "'w effect \<Rightarrow> (pystr \<times> pystr option \<times> params) list" where
  "synthesis_call_of (Generate text prompt ps) = [(text, prompt, ps)]"
| "synthesis_call_of _ = []"

definition synthesis_calls :: "'w effect list \<Rightarrow> (pystr \<times> pystr option \<times> params) list" where
  "synthesis_calls es = concat (map synthesis_call_of es)"

text \<open>The resolution order of the data model, in the specification's words.\<close>

definition effective_voice_style :: "story \<Rightarrow> segment \<Rightarrow> pystr" where
  "effective_voice_style doc seg =
     (case seg_voice_style seg of
        Some v \<Rightarrow> v
      | None \<Rightarrow>
          (case doc_settings doc of
             None \<Rightarrow> py ''neutral''
           | Some gs \<Rightarrow> (case set_voice_style gs of Some g \<Rightarrow> g | None \<Rightarrow> py ''neutral'')))"

definition effective_audio_prompt :: "story \<Rightarrow> segment \<Rightarrow> pystr option" where
  "effective_audio_prompt doc seg =
     (case seg_audio_prompt seg of
        Some a \<Rightarrow> Some a
      | None \<Rightarrow> (case doc_settings doc of None \<Rightarrow> None | Some gs \<Rightarrow> set_audio_prompt gs))"

text \<open>The two presets of \<open>VOICE_PRESETS\<close>, and the lookup with its default.\<close>

definition neutral_preset :: params where
  "neutral_preset = [py ''exaggeration'' \<mapsto> 5 / 10, py ''cfg_weight'' \<mapsto> 5 / 10]"

definition calm_preset :: params where
  "calm_preset = [py ''exaggeration'' \<mapsto> 3 / 10, py ''cfg_weight'' \<mapsto> 7 / 10]"

definition preset_of :: "pystr \<Rightarrow> params" where
  "preset_of voice_style =
     (if voice_style = py ''calm'' then calm_preset else neutral_preset)"

text \<open>
  A segment is blank when its text is empty or whitespace only; \<open>segment_file\<close> is the
  path of the file of the segment with the given 1-based index; \<open>segments_of\<close> and
  \<open>settings_of\<close> read a document with the defaults of \<open>.get\<close>.
\<close>

definition blank :: "segment \<Rightarrow> bool" where
  "blank seg \<longleftrightarrow> strip (case seg_text seg of Some t \<Rightarrow> t | None \<Rightarrow> []) = []"

definition segment_file :: "'w collaborators \<Rightarrow> pystr \<Rightarrow> pystr \<Rightarrow> nat \<Rightarrow> pystr" where
  "segment_file ext output_dir name index =
     path_join ext output_dir (name @ py ''_segment_'' @ format_03d index @ py ''.wav'')"

definition segments_of :: "story \<Rightarrow> segment list" where
  "segments_of doc = (case doc_segments doc of Some ss \<Rightarrow> ss | None \<Rightarrow> [])"

definition settings_of :: "story \<Rightarrow> settings" where
  "settings_of doc =
     (case doc_settings doc of
        Some gs \<Rightarrow> gs
      | None \<Rightarrow> \<lparr>set_voice_style = None, set_audio_prompt = None\<rparr>)"

text \<open>The synthesis model and the audio library never raise.\<close>

definition externals_succeed :: "'w collaborators \<Rightarrow> bool" where
  "externals_succeed ext \<longleftrightarrow>
     (\<forall>text prompt ps. \<exists>w. model_generate ext text prompt ps = Inr w) \<and>
     (\<forall>path w. ta_save ext path w = None) \<and>
     (\<forall>files path. concat_tensors ext files path = None)"

text \<open>What one spoken segment asks of the synthesis model.\<close>

definition synthesis_request :: "story \<Rightarrow> segment \<Rightarrow> pystr \<times> pystr option \<times> params" where
  "synthesis_request doc seg =
     ((case seg_text seg of Some t \<Rightarrow> t | None \<Rightarrow> []),
      (if truthy (effective_audio_prompt doc seg) then effective_audio_prompt doc seg
       else None),
      preset_of (effective_voice_style doc seg) ++
        (case seg_tts_params seg of Some c \<Rightarrow> c | None \<Rightarrow> Map.empty))"

text \<open>\<open>enumerate(segments)\<close>, and the pairs of it that are not skipped.\<close>

definition spoken :: "(nat \<times> segment) list \<Rightarrow> (nat \<times> segment) list" where
  "spoken xs = filter (\<lambda>(i, seg). \<not> blank seg) xs"

definition enumerate_segments :: "story \<Rightarrow> (nat \<times> segment) list" where
  "enumerate_segments doc = zip [0..<length (segments_of doc)] (segments_of doc)"

text \<open>The segment that auto-ingestion builds from the text at index \<open>k\<close>.\<close>

definition cycled_segment :: "pystr list \<Rightarrow> nat \<times> pystr \<Rightarrow> segment" where
  "cycled_segment pattern x =
     (case x of (k, segment_text) \<Rightarrow>
        \<lparr>seg_text = Some (strip segment_text),
         seg_voice_style =
           (if pattern ! (k mod length pattern) \<noteq> py ''neutral''
            then Some (pattern ! (k mod length pattern)) else None),
         seg_audio_prompt = None,
         seg_tts_params = None\<rparr>)"

text \<open>
  What the batch records for one file, and what the batch prints and does for it.
\<close>

definition file_outcome :: "'w collaborators \<Rightarrow> pystr \<Rightarrow> pystr \<Rightarrow> pystr list" where
  "file_outcome ext out f =
     (case snd (process_story_from_file ext out f) of Inl e \<Rightarrow> [] | Inr files \<Rightarrow> files)"

definition file_trace :: "'w collaborators \<Rightarrow> pystr \<Rightarrow> pystr \<Rightarrow> 'w effect list" where
  "file_trace ext out f =
     [Print BlankLineAndRule, Print (Processing (path_name ext f)), Print Rule] @
     fst (process_story_from_file ext out f) @
     [case snd (process_story_from_file ext out f) of
        Inl e \<Rightarrow> Print (ErrorProcessing (path_name ext f) e)
      | Inr files \<Rightarrow> Print (SuccessfullyProcessed (path_name ext f))]"

text \<open>No call of the synthesis model in the trace carries an audio prompt.\<close>

definition no_cloning :: "'w effect list \<Rightarrow> bool" where
  "no_cloning es \<longleftrightarrow> (\<forall>t q ps. Generate t (Some q) ps \<notin> set es)"

text \<open>Concrete inputs on which the theorems are instantiated.\<close>

definition sample_text :: pystr where
  "sample_text = py ''Aa. Bbbbbbbbbbbb. C.'' @ [NL, NL] @ py ''xy''"

definition five_paragraphs :: pystr where
  "five_paragraphs =
     py ''A.'' @ [NL, NL] @ py ''B.'' @ [NL, NL] @ py ''C.'' @ [NL, NL] @ py ''D.'' @ [NL, NL] @
     py ''E.''"

definition sample_doc :: story where
  "sample_doc =
     \<lparr>doc_title = Some (py ''Demo''),
      doc_description = None,
      doc_settings = Some \<lparr>set_voice_style = Some (py ''calm''),
                            set_audio_prompt = Some (py ''ref.wav'')\<rparr>,
      doc_create_full_audio = Some True,
      doc_segments =
        Some [\<lparr>seg_text = Some (py ''Hi''), seg_voice_style = None,
                seg_audio_prompt = None, seg_tts_params = None\<rparr>,
              \<lparr>seg_text = Some (py '' ''), seg_voice_style = None,
                seg_audio_prompt = None, seg_tts_params = None\<rparr>,
              \<lparr>seg_text = Some (py ''Yo''), seg_voice_style = Some (py ''epic''),
                seg_audio_prompt = Some (py ''own.wav''), seg_tts_params = None\<rparr>]\<rparr>"

definition sample_ext :: "pystr collaborators" where
  "sample_ext =
     \<lparr>path_exists = (\<lambda>p. p = py ''story.txt''),
      path_name = (\<lambda>p. p),
      path_stem = takeWhile (\<lambda>c. c \<noteq> 46),
      path_join = (\<lambda>d f. d @ [47] @ f),
      glob_json = (\<lambda>d. [py ''a.json'', py ''b.json'', py ''c.json'']),
      str_title = (\<lambda>s. s),
      read_text = (\<lambda>p. Inr five_paragraphs),
      json_load = (\<lambda>p. if p = py ''b.json'' then Inl (ExternalError (py ''bad''))
                         else Inr sample_doc),
      json_dump = (\<lambda>p d. None),
      mkdir = (\<lambda>d. None),
      from_pretrained = (\<lambda>d. None),
      model_generate = (\<lambda>t p ps. Inr t),
      ta_save = (\<lambda>p w. None),
      concat_tensors = (\<lambda>fs p. None)\<rparr>"

text \<open>The Python string \<^verbatim>\<open>, ", "'").replace(").replace(\<close>.\<close>

definition nested_quote_text :: pystr where
  "nested_quote_text = py '', '' @ [34] @ quote_literal @ [34] @ py '').replace(''"

definition five_kwargs :: ingest_kwargs where
  "five_kwargs = no_kwargs\<lparr>kw_target_segment_length := Some 1\<rparr>"

definition five_doc :: story where
  "five_doc =
     build_story_data sample_ext (py ''story.txt'') five_kwargs
       (map (cycled_segment DEFAULT_VOICE_PATTERN)
          [(0, py ''A.''), (1, py ''B.''), (2, py ''C.''), (3, py ''D.''), (4, py ''E.'')])"

text \<open>The same text ingested with a pattern that the caller supplies.\<close>

definition duo_kwargs :: ingest_kwargs where
  "duo_kwargs =
     no_kwargs\<lparr>kw_target_segment_length := Some 1,
               kw_voice_style_pattern := Some [py ''epic'', py ''neutral'']\<rparr>"

definition duo_doc :: story where
  "duo_doc =
     build_story_data sample_ext (py ''story.txt'') duo_kwargs
       (map (cycled_segment [py ''epic'', py ''neutral''])
          [(0, py ''A.''), (1, py ''B.''), (2, py ''C.''), (3, py ''D.''), (4, py ''E.'')])"

definition auto_doc :: story where
  "auto_doc =
     build_story_data sample_ext (py ''story.txt'') no_kwargs
       [cycled_segment DEFAULT_VOICE_PATTERN
          (0, py ''A.'' @ [NL, NL] @ py ''B.'' @ [NL, NL] @ py ''C.'' @ [NL, NL] @
              py ''D.'' @ [NL, NL] @ py ''E.'')]"

definition blank_segment :: segment where
  "blank_segment =
     \<lparr>seg_text = Some (py '' ''), seg_voice_style = None, seg_audio_prompt = None,
      seg_tts_params = None\<rparr>"

section \<open>Auxiliary lemmas\<close>

subsection \<open>Whitespace and stripping\<close>

lemma is_space_NL: "is_space NL" by (simp add: is_space_def NL_def)

lemma is_space_SP: "is_space SP" by (simp add: is_space_def SP_def)

lemma Ball_dropWhile: "(\<forall>c\<in>set (dropWhile P xs). P c) \<longleftrightarrow> (\<forall>c\<in>set xs. P c)"
  by (induction xs) auto

lemma strip_eq_Nil_iff: "strip s = [] \<longleftrightarrow> (\<forall>c\<in>set s. is_space c)"
  by (simp add: strip_def dropWhile_eq_Nil_conv Ball_dropWhile)

lemma stripped_strip: "strip s \<noteq> [] \<Longrightarrow> stripped (strip s)"
proof -
  assume ne: "strip s \<noteq> []"
  let ?d = "dropWhile is_space s"
  let ?r = "dropWhile is_space (rev ?d)"
  have r_ne: "?r \<noteq> []" using ne by (simp add: strip_def)
  then have hd_r: "\<not> is_space (hd ?r)" by (rule hd_dropWhile)
  have d_ne: "?d \<noteq> []" using r_ne by (cases ?d) simp_all
  then have hd_d: "\<not> is_space (hd ?d)" by (rule hd_dropWhile)
  have "last (strip s) = hd ?r" using r_ne by (simp add: strip_def last_rev)
  moreover have "hd (strip s) = hd ?d"
  proof -
    obtain x xs where d: "?d = x # xs" using d_ne by (cases ?d) auto
    have nx: "\<not> is_space x" using hd_d d by simp
    have "rev ?d = rev xs @ [x]" using d by simp
    then have "?r = (if \<forall>c\<in>set (rev xs). is_space c then dropWhile is_space [x] else dropWhile is_space (rev xs) @ [x])"
      by (simp add: dropWhile_append)
    then have "last ?r = x" using nx by (auto split: if_splits)
    then show ?thesis using r_ne d by (simp add: strip_def hd_rev)
  qed
  ultimately show ?thesis using ne hd_r hd_d by (simp add: stripped_def)
qed

lemma strip_stripped_append:
  assumes "stripped u" and "\<forall>c\<in>set sep. is_space c"
  shows "strip (u @ sep) = u"
proof -
  obtain x xs where u: "u = x # xs" and nx: "\<not> is_space x"
    using assms(1) by (cases u) (auto simp: stripped_def)
  have 1: "dropWhile is_space (u @ sep) = u @ sep" using u nx by simp
  have "rev u \<noteq> []" using u by simp
  then obtain y ys where ru: "rev u = y # ys" by (cases "rev u") auto
  have "hd (rev u) = last u" using u by (simp add: hd_rev)
  then have "\<not> is_space y" using ru assms(1) by (simp add: stripped_def)
  then have 2: "dropWhile is_space (rev u) = rev u"
    using ru by simp
  have "dropWhile is_space (rev sep @ rev u) = dropWhile is_space (rev u)"
    using assms(2) by (simp add: dropWhile_append)
  then show ?thesis using 1 2 by (simp add: strip_def)
qed

lemma strip_stripped: "stripped u \<Longrightarrow> strip u = u"
  using strip_stripped_append [of u "[]"] by simp

lemma strip_strip: "strip (strip s) = strip s"
proof (cases "strip s = []")
  case True
  then have "strip [] = []" by (simp add: strip_def)
  then show ?thesis using True by simp
next
  case False
  then show ?thesis by (simp add: stripped_strip strip_stripped)
qed

lemma length_strip_le: "length (strip s) \<le> length s"
proof -
  have "length (strip s) \<le> length (dropWhile is_space s)"
    unfolding strip_def by (metis length_dropWhile_le length_rev)
  also have "\<dots> \<le> length s" by (rule length_dropWhile_le)
  finally show ?thesis .
qed

lemma length_strip_append_le:
  assumes "\<forall>c\<in>set sep. is_space c"
  shows "length (strip (x @ sep)) \<le> length x"
proof -
  have "dropWhile is_space (rev sep @ rev (dropWhile is_space x)) = dropWhile is_space (rev (dropWhile is_space x))"
    using assms by (simp add: dropWhile_append)
  moreover have "dropWhile is_space (x @ sep) = (if \<forall>c\<in>set x. is_space c then dropWhile is_space sep else dropWhile is_space x @ sep)"
    by (simp add: dropWhile_append)
  moreover have "dropWhile is_space sep = []" using assms by simp
  ultimately have "strip (x @ sep) = (if \<forall>c\<in>set x. is_space c then [] else strip x)"
    by (simp add: strip_def del: dropWhile_eq_Nil_conv)
  then show ?thesis using length_strip_le [of x] by (simp split: if_splits)
qed

lemma non_space_strip: "non_space (strip s) = non_space s"
proof -
  have a: "\<And>xs. filter (\<lambda>c. \<not> is_space c) (dropWhile is_space xs) = filter (\<lambda>c. \<not> is_space c) xs"
    by (induct_tac xs) auto
  show ?thesis
    unfolding non_space_def strip_def
    by (simp add: a rev_filter [symmetric])
qed

subsection \<open>The segmenter as one pass over the units\<close>

lemma unit_sep_space: "\<forall>c\<in>set (unit_sep u). is_space c"
  by (cases u) (simp_all add: is_space_NL is_space_SP)

lemma unit_step_eq:
  "unit_step T u (segs, cur) =
     (if int (length cur) + int (length (unit_text u)) > T \<and> cur \<noteq> []
      then (segs @ [strip cur], unit_text u @ unit_sep u)
      else (segs, cur @ unit_text u @ unit_sep u))"
  by (cases u) (simp_all add: sentence_step_def whole_paragraph_step_def)

lemma paragraph_step_units:
  "paragraph_step T p st = fold (unit_step T) (units_of_paragraph T p) st"
proof -
  have "fold (unit_step T) (map Sentence ss) st = fold (sentence_step T) ss st" for ss
    by (induction ss arbitrary: st) simp_all
  then show ?thesis
    by (simp add: paragraph_step_def units_of_paragraph_def)
qed

lemma fold_paragraph_step_units:
  "fold (paragraph_step T) ps st = fold (unit_step T) (concat (map (units_of_paragraph T) ps)) st"
  by (induction ps arbitrary: st) (simp_all add: paragraph_step_units)

lemma splitting_as_units:
  "intelligent_text_splitting text T = finish (run_units T (units_of text T))"
  by (simp add: intelligent_text_splitting_def finish_def run_units_def units_of_def
      fold_paragraph_step_units Let_def split: prod.splits)

lemma run_units_Suc:
  assumes "k < length us"
  shows "run_units T (take (Suc k) us) = unit_step T (us ! k) (run_units T (take k us))"
  using assms by (simp add: run_units_def take_Suc_conv_app_nth)

lemma stripped_sentences: "s \<in> set (split_into_sentences p) \<Longrightarrow> stripped s"
  by (auto simp: split_into_sentences_def stripped_strip)

lemma stripped_paragraphs: "p \<in> set (paragraphs_of t) \<Longrightarrow> stripped p"
  by (auto simp: paragraphs_of_def stripped_strip)

lemma stripped_units: "u \<in> set (units_of text T) \<Longrightarrow> stripped (unit_text u)"
  by (auto simp: units_of_def units_of_paragraph_def split: if_splits
      dest: stripped_sentences stripped_paragraphs)

lemma fold_unit_step_invariant:
  assumes "P st" and "\<And>u st. u \<in> set us \<Longrightarrow> P st \<Longrightarrow> P (unit_step T u st)"
  shows "P (fold (unit_step T) us st)"
  using assms by (induction us arbitrary: st) simp_all

lemma bounded_state_step:
  assumes u: "u \<in> set us" and su: "stripped (unit_text u)" and inv: "bounded_state T us st"
  shows "bounded_state T us (unit_step T u st)"
proof -
  obtain segs cur where st: "st = (segs, cur)" by (cases st)
  have fresh: "strip (unit_text u @ unit_sep u) = unit_text u"
    using su unit_sep_space by (rule strip_stripped_append)
  have wu: "within_target T us (unit_text u)"
    using u by (auto simp: within_target_def)
  show ?thesis
  proof (cases "int (length cur) + int (length (unit_text u)) > T \<and> cur \<noteq> []")
    case True
    then show ?thesis
      using inv wu fresh by (simp add: st unit_step_eq bounded_state_def)
  next
    case False
    show ?thesis
    proof (cases "cur = []")
      case True
      then show ?thesis
        using inv wu fresh False by (simp add: st unit_step_eq bounded_state_def)
    next
      case ne: False
      then have le: "int (length cur) + int (length (unit_text u)) \<le> T" using False by simp
      have "length (strip ((cur @ unit_text u) @ unit_sep u)) \<le> length (cur @ unit_text u)"
        using unit_sep_space by (rule length_strip_append_le)
      then have "within_target T us (strip (cur @ unit_text u @ unit_sep u))"
        using le by (simp add: within_target_def)
      moreover have "unit_step T u st = (segs, cur @ unit_text u @ unit_sep u)"
        using False by (simp add: st unit_step_eq)
      ultimately show ?thesis
        using inv by (simp add: st bounded_state_def)
    qed
  qed
qed

lemma bounded_state_run:
  assumes "\<forall>u\<in>set us. stripped (unit_text u)"
  shows "bounded_state T us (run_units T us)"
  unfolding run_units_def
proof (rule fold_unit_step_invariant)
  show "bounded_state T us ([], [])" by (simp add: bounded_state_def)
next
  fix u st
  assume "u \<in> set us" and "bounded_state T us st"
  then show "bounded_state T us (unit_step T u st)"
    using assms by (simp add: bounded_state_step)
qed

lemma finish_bounded:
  assumes "bounded_state T us st" and "s \<in> set (finish st)"
  shows "within_target T us s"
proof -
  obtain segs cur where st: "st = (segs, cur)" by (cases st)
  have "strip cur \<noteq> [] \<Longrightarrow> cur \<noteq> []" by (auto simp: strip_def)
  then show ?thesis
    using assms by (auto simp: st finish_def bounded_state_def split: if_splits)
qed

subsection \<open>Content and trimming of the segments\<close>

lemma non_space_Nil: "non_space [] = []"
  by (simp add: non_space_def)

lemma non_space_append: "non_space (a @ b) = non_space a @ non_space b"
  by (simp add: non_space_def)

lemma non_space_all_space: "\<forall>c\<in>set s. is_space c \<Longrightarrow> non_space s = []"
  by (simp add: non_space_def)

lemma non_space_dropWhile: "non_space (dropWhile is_space s) = non_space s"
  unfolding non_space_def by (induction s) auto

lemma non_space_concat_strip:
  "non_space (concat (map strip (filter (\<lambda>p. strip p \<noteq> []) xs))) = non_space (concat xs)"
proof (induction xs)
  case Nil
  show ?case by simp
next
  case (Cons x xs)
  show ?case
  proof (cases "strip x = []")
    case True
    then have "non_space x = []" by (simp add: strip_eq_Nil_iff non_space_all_space)
    then show ?thesis using True Cons by (simp add: non_space_append)
  next
    case False
    then show ?thesis using Cons by (simp add: non_space_append non_space_strip)
  qed
qed

lemma split_blank_not_Nil: "split_blank t \<noteq> []"
  by (induction t rule: split_blank.induct) (auto split: list.splits)

lemma concat_split_blank: "non_space (concat (split_blank t)) = non_space t"
proof (induction t rule: split_blank.induct)
  case 1
  show ?case by simp
next
  case (2 c)
  show ?case by simp
next
  case (3 c d ds)
  show ?case
  proof (cases "c = NL \<and> d = NL")
    case True
    then show ?thesis using 3 by (simp add: non_space_def is_space_NL)
  next
    case False
    obtain p ps where sp: "split_blank (d # ds) = p # ps"
      using split_blank_not_Nil [of "d # ds"] by (cases "split_blank (d # ds)") auto
    have "non_space (concat ((c # p) # ps)) = non_space [c] @ non_space (concat (p # ps))"
      by (simp add: non_space_def)
    also have "\<dots> = non_space [c] @ non_space (d # ds)" using 3 False sp by simp
    also have "\<dots> = non_space (c # d # ds)" by (simp add: non_space_def)
    finally have "non_space (concat ((c # p) # ps)) = non_space (c # d # ds)" .
    moreover have "split_blank (c # d # ds) = (c # p) # ps" using False sp by auto
    ultimately show ?thesis by simp
  qed
qed

lemma split_after_punct_not_Nil: "split_after_punct t \<noteq> []"
  by (induction t rule: split_after_punct.induct) (auto split: list.splits)

lemma concat_split_after_punct: "non_space (concat (split_after_punct t)) = non_space t"
proof (induction t rule: split_after_punct.induct)
  case 1
  show ?case by simp
next
  case (2 c cs)
  show ?case
  proof (cases "is_punct c \<and> cs \<noteq> [] \<and> is_space (hd cs)")
    case True
    then have "non_space (concat (split_after_punct (c # cs))) =
        non_space [c] @ non_space (concat (split_after_punct (dropWhile is_space cs)))"
      by (simp add: non_space_def)
    also have "\<dots> = non_space [c] @ non_space (dropWhile is_space cs)" using 2 True by simp
    also have "\<dots> = non_space (c # cs)"
      by (simp add: non_space_dropWhile) (simp add: non_space_def)
    finally show ?thesis .
  next
    case False
    obtain p ps where sp: "split_after_punct cs = p # ps"
      using split_after_punct_not_Nil [of cs] by (cases "split_after_punct cs") auto
    have "non_space (concat ((c # p) # ps)) = non_space [c] @ non_space (concat (p # ps))"
      by (simp add: non_space_def)
    also have "\<dots> = non_space [c] @ non_space cs" using 2 False sp by simp
    also have "\<dots> = non_space (c # cs)" by (simp add: non_space_def)
    finally have "non_space (concat ((c # p) # ps)) = non_space (c # cs)" .
    moreover have "split_after_punct (c # cs) = (c # p) # ps" using False sp by auto
    ultimately show ?thesis by simp
  qed
qed

lemma content_sentences: "non_space (concat (split_into_sentences p)) = non_space p"
  by (simp add: split_into_sentences_def non_space_concat_strip concat_split_after_punct)

lemma content_paragraphs: "non_space (concat (paragraphs_of t)) = non_space t"
  by (simp add: paragraphs_of_def non_space_concat_strip concat_split_blank)

lemma content_units_of_paragraph:
  "non_space (concat (map unit_text (units_of_paragraph T p))) = non_space p"
proof -
  have "map unit_text (map Sentence ss) = ss" for ss
    by (induction ss) simp_all
  then show ?thesis
    by (simp add: units_of_paragraph_def content_sentences)
qed

lemma content_units_list:
  "non_space (concat (map unit_text (concat (map (units_of_paragraph T) ps)))) =
   non_space (concat ps)"
  by (induction ps) (simp_all add: non_space_append content_units_of_paragraph)

lemma content_units: "non_space (concat (map unit_text (units_of text T))) = non_space (clean_text text)"
  by (simp add: units_of_def content_units_list content_paragraphs)

lemma state_content_step:
  "state_content (unit_step T u st) = state_content st @ non_space (unit_text u)"
proof -
  obtain segs cur where st: "st = (segs, cur)" by (cases st)
  have "non_space (unit_sep u) = []"
    using unit_sep_space by (rule non_space_all_space)
  then show ?thesis
    by (simp add: st unit_step_eq state_content_def non_space_append non_space_strip)
qed

lemma state_content_fold:
  "state_content (fold (unit_step T) us st) =
   state_content st @ non_space (concat (map unit_text us))"
  by (induction us arbitrary: st) (simp_all add: state_content_step non_space_append non_space_Nil)

lemma content_finish: "non_space (concat (finish st)) = state_content st"
proof -
  obtain segs cur where st: "st = (segs, cur)" by (cases st)
  show ?thesis
  proof (cases "strip cur = []")
    case True
    then have "non_space cur = []" by (simp add: strip_eq_Nil_iff non_space_all_space)
    then show ?thesis using True by (simp add: st finish_def state_content_def non_space_append)
  next
    case False
    then show ?thesis
      by (simp add: st finish_def state_content_def non_space_append non_space_strip)
  qed
qed

lemma trimmed_state_step:
  assumes su: "stripped (unit_text u)" and inv: "trimmed_state st"
  shows "trimmed_state (unit_step T u st)"
proof -
  obtain segs cur where st: "st = (segs, cur)" by (cases st)
  obtain c where c: "c \<in> set (unit_text u)" "\<not> is_space c"
    using su by (cases "unit_text u") (auto simp: stripped_def)
  then have fresh: "strip (x @ unit_text u @ unit_sep u) \<noteq> []" for x
    by (auto simp: strip_eq_Nil_iff)
  show ?thesis
  proof (cases "int (length cur) + int (length (unit_text u)) > T \<and> cur \<noteq> []")
    case True
    then have "unit_step T u st = (segs @ [strip cur], unit_text u @ unit_sep u)"
      by (simp add: st unit_step_eq)
    moreover have "strip cur \<noteq> []" using inv True by (simp add: st trimmed_state_def)
    ultimately show ?thesis
      using inv fresh [of "[]"] by (simp add: st trimmed_state_def strip_strip)
  next
    case False
    then have "unit_step T u st = (segs, cur @ unit_text u @ unit_sep u)"
      by (simp add: st unit_step_eq)
    then show ?thesis
      using inv fresh [of cur] by (simp add: st trimmed_state_def)
  qed
qed

lemma trimmed_state_run:
  assumes "\<forall>u\<in>set us. stripped (unit_text u)"
  shows "trimmed_state (run_units T us)"
  unfolding run_units_def
proof (rule fold_unit_step_invariant)
  show "trimmed_state ([], [])" by (simp add: trimmed_state_def)
next
  fix u st
  assume "u \<in> set us" and "trimmed_state st"
  then show "trimmed_state (unit_step T u st)"
    using assms by (simp add: trimmed_state_step)
qed

lemma finish_trimmed:
  assumes "trimmed_state st" and "s \<in> set (finish st)"
  shows "s \<noteq> [] \<and> strip s = s"
proof -
  obtain segs cur where st: "st = (segs, cur)" by (cases st)
  show ?thesis
    using assms by (auto simp: st finish_def trimmed_state_def strip_strip split: if_splits)
qed

lemma clean_text_Nil: "clean_text [] = []"
  by (simp add: clean_text_def strip_def)

subsection \<open>Evaluation on the sample text\<close>

lemmas eval_text = py_def NL_def SP_def is_space_def is_punct_def strip_def clean_text_def
  quote_literal_def paragraphs_of_def split_into_sentences_def sentence_step_def
  whole_paragraph_step_def paragraph_step_def intelligent_text_splitting_def

lemma sample_segments:
  "intelligent_text_splitting sample_text 5 = [py ''Aa.'', py ''Bbbbbbbbbbbb.'', py ''C. xy'']"
  by (simp add: sample_text_def eval_text)

lemma sample_units:
  "units_of sample_text 5 =
     [Sentence (py ''Aa.''), Sentence (py ''Bbbbbbbbbbbb.''), Sentence (py ''C.''),
      Paragraph (py ''xy'')]"
  by (simp add: sample_text_def units_of_def units_of_paragraph_def eval_text)

subsection \<open>Runs and presets\<close>

lemma bind_ok [simp]: "bind (ok x) f = f x"
  by (cases "f x") (simp add: bind_def ok_def)

lemma bind_emit: "bind (emit e) f = (e # fst (f ()), snd (f ()))"
  by (cases "f ()") (simp add: bind_def emit_def)

lemma bind_Inr_iff:
  "bind m f = (es, Inr y) \<longleftrightarrow>
     (\<exists>es1 x es2. m = (es1, Inr x) \<and> f x = (es2, Inr y) \<and> es = es1 @ es2)"
proof (cases m)
  case (Pair es1 r)
  show ?thesis
  proof (cases r)
    case (Inl e)
    then show ?thesis using Pair by (simp add: bind_def)
  next
    case (Inr x)
    then show ?thesis using Pair by (cases "f x") (auto simp: bind_def)
  qed
qed

lemma neutral_neq_calm: "py ''neutral'' \<noteq> py ''calm''"
  by (simp add: py_def)

lemma bind_InrE:
  assumes "bind m f = (es, Inr y)"
  obtains es1 x es2 where "m = (es1, Inr x)" and "f x = (es2, Inr y)" and "es = es1 @ es2"
  using assms by (auto simp: bind_Inr_iff)

lemma bind_emit_InrE:
  assumes "bind (emit e) f = (es, Inr y)"
  obtains es' where "f () = (es', Inr y)" and "es = e # es'"
  using assms by (cases "f ()") (auto simp: bind_def emit_def)

lemma run_eqI: "snd m = r \<Longrightarrow> m = (fst m, r)"
  by auto

lemma VOICE_PRESETS_neutral: "VOICE_PRESETS (py ''neutral'') = Some neutral_preset"
  using neutral_neq_calm by (simp add: VOICE_PRESETS_def neutral_preset_def)

lemma VOICE_PRESETS_calm: "VOICE_PRESETS (py ''calm'') = Some calm_preset"
  by (simp add: VOICE_PRESETS_def calm_preset_def)

lemma VOICE_PRESETS_other:
  "voice_style \<noteq> py ''neutral'' \<Longrightarrow> voice_style \<noteq> py ''calm'' \<Longrightarrow>
   VOICE_PRESETS voice_style = None"
  by (simp add: VOICE_PRESETS_def)

lemma VOICE_PRESETS_get:
  "(case VOICE_PRESETS voice_style of Some preset \<Rightarrow> preset | None \<Rightarrow> neutral_preset) =
   preset_of voice_style"
proof (cases "voice_style = py ''calm''")
  case True
  then show ?thesis by (simp add: VOICE_PRESETS_calm preset_of_def)
next
  case False
  then show ?thesis
    by (cases "voice_style = py ''neutral''")
       (simp_all add: VOICE_PRESETS_neutral VOICE_PRESETS_other preset_of_def)
qed

lemma generate_segment_audio_eq:
  "generate_segment_audio ext text voice_style prompt custom =
     (let ps = preset_of voice_style ++ (case custom of None \<Rightarrow> Map.empty | Some c \<Rightarrow> c);
          p = (if truthy prompt then prompt else None)
      in ([Generate text p ps], model_generate ext text p ps))"
  by (cases custom)
     (simp_all add: generate_segment_audio_def VOICE_PRESETS_neutral VOICE_PRESETS_get Let_def)

subsection \<open>The orchestrator\<close>

lemma saved_paths_append [simp]: "saved_paths (a @ b) = saved_paths a @ saved_paths b"
  by (simp add: saved_paths_def)

lemma announced_styles_append [simp]:
  "announced_styles (a @ b) = announced_styles a @ announced_styles b"
  by (simp add: announced_styles_def)

lemma synthesis_calls_append [simp]:
  "synthesis_calls (a @ b) = synthesis_calls a @ synthesis_calls b"
  by (simp add: synthesis_calls_def)

lemma process_segment_blank:
  "blank seg \<Longrightarrow> process_segment ext out name gs n (i, seg) = ([], Inr None)"
  by (simp add: process_segment_def blank_def ok_def)

lemma process_segment_spoken:
  assumes "\<not> blank seg"
  shows "process_segment ext out name (settings_of doc) n (i, seg) =
    (case model_generate ext (fst (synthesis_request doc seg))
            (fst (snd (synthesis_request doc seg))) (snd (snd (synthesis_request doc seg))) of
       Inl e \<Rightarrow>
         ([Print (ProcessingSegment (i + 1) n (effective_voice_style doc seg)),
           Generate (fst (synthesis_request doc seg)) (fst (snd (synthesis_request doc seg)))
             (snd (snd (synthesis_request doc seg)))], Inl e)
     | Inr w \<Rightarrow>
         (case ta_save ext (segment_file ext out name (i + 1)) w of
            Some e \<Rightarrow>
              ([Print (ProcessingSegment (i + 1) n (effective_voice_style doc seg)),
                Generate (fst (synthesis_request doc seg))
                  (fst (snd (synthesis_request doc seg)))
                  (snd (snd (synthesis_request doc seg))),
                SaveAudio (segment_file ext out name (i + 1)) w], Inl e)
          | None \<Rightarrow>
              ([Print (ProcessingSegment (i + 1) n (effective_voice_style doc seg)),
                Generate (fst (synthesis_request doc seg))
                  (fst (snd (synthesis_request doc seg)))
                  (snd (snd (synthesis_request doc seg))),
                SaveAudio (segment_file ext out name (i + 1)) w,
                Print (Saved (name @ py ''_segment_'' @ format_03d (i + 1) @ py ''.wav''))],
               Inr (Some (segment_file ext out name (i + 1))))))"
proof -
  have style: "(case seg_voice_style seg of
                      Some v \<Rightarrow> v
                    | None \<Rightarrow> (case set_voice_style (settings_of doc) of
                                 Some g \<Rightarrow> g
                               | None \<Rightarrow> py ''neutral'')) = effective_voice_style doc seg"
    by (simp add: effective_voice_style_def settings_of_def split: option.splits)
  have prompt: "(case seg_audio_prompt seg of
                      Some a \<Rightarrow> Some a
                    | None \<Rightarrow> set_audio_prompt (settings_of doc)) = effective_audio_prompt doc seg"
    by (simp add: effective_audio_prompt_def settings_of_def split: option.splits)
  have custom: "(case Some (case seg_tts_params seg of Some c \<Rightarrow> c | None \<Rightarrow> Map.empty) of
                   None \<Rightarrow> Map.empty | Some c \<Rightarrow> c) =
                (case seg_tts_params seg of Some c \<Rightarrow> c | None \<Rightarrow> Map.empty)"
    by simp
  show ?thesis
    using assms
    unfolding process_segment_def blank_def prod.case Let_def style prompt
      generate_segment_audio_eq custom
    by (simp add: synthesis_request_def segment_file_def bind_def emit_def ok_def
        save_audio_def call_def split: sum.splits option.splits)
qed

lemma process_segment_Inr:
  assumes "process_segment ext out name (settings_of doc) n (i, seg) = (es, Inr r)"
  shows "(blank seg \<longrightarrow> es = [] \<and> r = None) \<and>
         (\<not> blank seg \<longrightarrow>
            r = Some (segment_file ext out name (i + 1)) \<and>
            saved_paths es = [segment_file ext out name (i + 1)] \<and>
            announced_styles es = [effective_voice_style doc seg] \<and>
            synthesis_calls es = [synthesis_request doc seg])"
proof (cases "blank seg")
  case True
  then show ?thesis using assms by (simp add: process_segment_blank)
next
  case False
  then show ?thesis
    using assms
    by (auto simp: process_segment_spoken saved_paths_def announced_styles_def
        synthesis_calls_def split: sum.splits option.splits)
qed

lemma segments_loop_Inr:
  assumes "segments_loop ext out name (settings_of doc) n xs acc = (es, Inr files)"
  shows "files = acc @ map (\<lambda>(i, seg). segment_file ext out name (i + 1)) (spoken xs) \<and>
         saved_paths es = map (\<lambda>(i, seg). segment_file ext out name (i + 1)) (spoken xs) \<and>
         announced_styles es = map (\<lambda>(i, seg). effective_voice_style doc seg) (spoken xs) \<and>
         synthesis_calls es = map (\<lambda>(i, seg). synthesis_request doc seg) (spoken xs)"
  using assms
proof (induction xs arbitrary: acc es files)
  case Nil
  then show ?case
    by (simp add: ok_def spoken_def saved_paths_def announced_styles_def synthesis_calls_def)
next
  case (Cons x xs)
  obtain i seg where x: "x = (i, seg)" by (cases x)
  from Cons.prems obtain es1 r es2 where
    step: "process_segment ext out name (settings_of doc) n (i, seg) = (es1, Inr r)" and
    rest: "segments_loop ext out name (settings_of doc) n xs
             (case r of None \<Rightarrow> acc | Some path \<Rightarrow> acc @ [path]) = (es2, Inr files)" and
    es: "es = es1 @ es2"
    by (auto simp: x bind_Inr_iff)
  note ih = Cons.IH [OF rest]
  note st = process_segment_Inr [OF step]
  show ?case
  proof (cases "blank seg")
    case True
    then show ?thesis
      using ih st es
      by (simp add: x spoken_def saved_paths_def announced_styles_def synthesis_calls_def)
  next
    case False
    then show ?thesis
      using ih st es by (simp add: x spoken_def)
  qed
qed

lemma process_segment_succeeds:
  assumes "externals_succeed ext"
  shows "\<exists>es r. process_segment ext out name (settings_of doc) n (i, seg) = (es, Inr r)"
proof (cases "blank seg")
  case True
  then show ?thesis by (simp add: process_segment_blank)
next
  case False
  obtain w where
    "model_generate ext (fst (synthesis_request doc seg))
       (fst (snd (synthesis_request doc seg))) (snd (snd (synthesis_request doc seg))) = Inr w"
    using assms unfolding externals_succeed_def by blast
  moreover have "ta_save ext (segment_file ext out name (i + 1)) w = None"
    using assms by (simp add: externals_succeed_def)
  ultimately show ?thesis
    using False by (simp add: process_segment_spoken)
qed

lemma segments_loop_succeeds:
  assumes "externals_succeed ext"
  shows "\<exists>es files. segments_loop ext out name (settings_of doc) n xs acc = (es, Inr files)"
proof (induction xs arbitrary: acc)
  case Nil
  show ?case by (simp add: ok_def)
next
  case (Cons x xs)
  obtain i seg where x: "x = (i, seg)" by (cases x)
  obtain es1 r where
    step: "process_segment ext out name (settings_of doc) n (i, seg) = (es1, Inr r)"
    using process_segment_succeeds [OF assms] by blast
  obtain es2 files where
    "segments_loop ext out name (settings_of doc) n xs
       (case r of None \<Rightarrow> acc | Some path \<Rightarrow> acc @ [path]) = (es2, Inr files)"
    using Cons.IH by blast
  then show ?case
    using step by (auto simp: x bind_Inr_iff)
qed

lemma concatenate_segments_trace:
  "concatenate_segments ext files path = (es, r) \<Longrightarrow>
   saved_paths es = [] \<and> announced_styles es = [] \<and> synthesis_calls es = []"
  by (auto simp: concatenate_segments_def bind_def emit_def call_def saved_paths_def
      announced_styles_def synthesis_calls_def split: option.splits)

lemma concatenate_segments_succeeds:
  "externals_succeed ext \<Longrightarrow> \<exists>es. concatenate_segments ext files path = (es, Inr ())"
  by (simp add: concatenate_segments_def bind_def emit_def call_def externals_succeed_def)

lemma process_war_story_unfold:
  "process_war_story ext out doc name =
     bind (emit (Print (ProcessingWarStory
             (case doc_title doc of Some t \<Rightarrow> t | None \<Rightarrow> py ''Untitled'')))) (\<lambda>_.
     bind (emit (Print (GeneratingAudioFor (length (segments_of doc))))) (\<lambda>_.
     bind (segments_loop ext out name (settings_of doc) (length (segments_of doc))
             (enumerate_segments doc) []) (\<lambda>generated_files.
     if (case doc_create_full_audio doc of Some b \<Rightarrow> b | None \<Rightarrow> True)
        \<and> generated_files \<noteq> []
     then bind (concatenate_segments ext generated_files
                  (path_join ext out (name @ py ''_complete.wav''))) (\<lambda>_.
          ok generated_files)
     else ok generated_files)))"
  by (simp add: process_war_story_def segments_of_def settings_of_def enumerate_segments_def
      Let_def)

lemma process_war_story_Inr:
  assumes "process_war_story ext out doc name = (es, Inr files)"
  shows "files = map (\<lambda>(i, seg). segment_file ext out name (i + 1))
                   (spoken (enumerate_segments doc)) \<and>
         saved_paths es = files \<and>
         announced_styles es = map (\<lambda>(i, seg). effective_voice_style doc seg)
                                 (spoken (enumerate_segments doc)) \<and>
         synthesis_calls es = map (\<lambda>(i, seg). synthesis_request doc seg)
                                (spoken (enumerate_segments doc))"
proof -
  from assms obtain es1 gen es2 where
    loop: "segments_loop ext out name (settings_of doc) (length (segments_of doc))
             (enumerate_segments doc) [] = (es1, Inr gen)" and
    fin: "(if (case doc_create_full_audio doc of Some b \<Rightarrow> b | None \<Rightarrow> True) \<and> gen \<noteq> []
           then bind (concatenate_segments ext gen
                        (path_join ext out (name @ py ''_complete.wav''))) (\<lambda>_. ok gen)
           else ok gen) = (es2, Inr files)" and
    es: "es = Print (ProcessingWarStory
                 (case doc_title doc of Some t \<Rightarrow> t | None \<Rightarrow> py ''Untitled'')) #
              Print (GeneratingAudioFor (length (segments_of doc))) # es1 @ es2"
  proof -
    from assms obtain esA where
      a: "bind (emit (Print (GeneratingAudioFor (length (segments_of doc))))) (\<lambda>_.
          bind (segments_loop ext out name (settings_of doc) (length (segments_of doc))
                  (enumerate_segments doc) []) (\<lambda>generated_files.
          if (case doc_create_full_audio doc of Some b \<Rightarrow> b | None \<Rightarrow> True)
             \<and> generated_files \<noteq> []
          then bind (concatenate_segments ext generated_files
                       (path_join ext out (name @ py ''_complete.wav''))) (\<lambda>_.
               ok generated_files)
          else ok generated_files)) = (esA, Inr files)" and
      esA: "es = Print (ProcessingWarStory
                 (case doc_title doc of Some t \<Rightarrow> t | None \<Rightarrow> py ''Untitled'')) # esA"
      unfolding process_war_story_unfold by (rule bind_emit_InrE)
    from a obtain esB where
      b: "bind (segments_loop ext out name (settings_of doc) (length (segments_of doc))
                  (enumerate_segments doc) []) (\<lambda>generated_files.
          if (case doc_create_full_audio doc of Some b \<Rightarrow> b | None \<Rightarrow> True)
             \<and> generated_files \<noteq> []
          then bind (concatenate_segments ext generated_files
                       (path_join ext out (name @ py ''_complete.wav''))) (\<lambda>_.
               ok generated_files)
          else ok generated_files) = (esB, Inr files)" and
      esB: "esA = Print (GeneratingAudioFor (length (segments_of doc))) # esB"
      by (rule bind_emit_InrE)
    from b obtain es1 gen es2 where
      "segments_loop ext out name (settings_of doc) (length (segments_of doc))
             (enumerate_segments doc) [] = (es1, Inr gen)" and
      "(if (case doc_create_full_audio doc of Some b \<Rightarrow> b | None \<Rightarrow> True) \<and> gen \<noteq> []
           then bind (concatenate_segments ext gen
                        (path_join ext out (name @ py ''_complete.wav''))) (\<lambda>_. ok gen)
           else ok gen) = (es2, Inr files)" and "esB = es1 @ es2"
      by (rule bind_InrE)
    then show ?thesis using esA esB that by simp
  qed
  have tail: "files = gen \<and> saved_paths es2 = [] \<and> announced_styles es2 = [] \<and>
              synthesis_calls es2 = []"
  proof (cases "(case doc_create_full_audio doc of Some b \<Rightarrow> b | None \<Rightarrow> True) \<and> gen \<noteq> []")
    case True
    then have "bind (concatenate_segments ext gen
                 (path_join ext out (name @ py ''_complete.wav''))) (\<lambda>_. ok gen) =
               (es2, Inr files)"
      using fin by simp
    then obtain es3 u es4 where
      c: "concatenate_segments ext gen (path_join ext out (name @ py ''_complete.wav'')) =
         (es3, Inr u)" and "ok gen = (es4, Inr files)" and "es2 = es3 @ es4"
      by (rule bind_InrE)
    then have "files = gen" and "es2 = es3" by (simp_all add: ok_def)
    then show ?thesis using concatenate_segments_trace [OF c] by simp
  next
    case False
    then show ?thesis
      using fin
      by (auto simp: ok_def saved_paths_def announced_styles_def synthesis_calls_def)
  qed
  have head: "saved_paths (Print a # Print b # xs) = saved_paths xs \<and>
              announced_styles (Print (ProcessingWarStory t) # Print (GeneratingAudioFor k) # xs)
                = announced_styles xs \<and>
              synthesis_calls (Print a # Print b # xs) = synthesis_calls xs"
    for a b t k and xs :: "'a effect list"
    by (simp add: saved_paths_def announced_styles_def synthesis_calls_def)
  show ?thesis
    using segments_loop_Inr [OF loop] tail head es by simp
qed

lemma process_war_story_succeeds:
  assumes "externals_succeed ext"
  shows "\<exists>es files. process_war_story ext out doc name = (es, Inr files)"
proof -
  obtain es1 gen where
    loop: "segments_loop ext out name (settings_of doc) (length (segments_of doc))
             (enumerate_segments doc) [] = (es1, Inr gen)"
    using segments_loop_succeeds [OF assms] by blast
  obtain es3 where
    "concatenate_segments ext gen (path_join ext out (name @ py ''_complete.wav'')) =
       (es3, Inr ())"
    using concatenate_segments_succeeds [OF assms] by blast
  then show ?thesis
    unfolding process_war_story_unfold using loop
    by (simp add: bind_def emit_def ok_def)
qed

lemma map_spoken_enumerate:
  "map (\<lambda>(i, seg). f seg) (spoken (enumerate_segments doc)) =
   map f (filter (\<lambda>seg. \<not> blank seg) (segments_of doc))"
proof -
  have "map (\<lambda>(i, seg). f seg) (filter (\<lambda>(i, seg). \<not> blank seg) xs) =
        map f (filter (\<lambda>seg. \<not> blank seg) (map snd xs))" for xs :: "(nat \<times> segment) list"
    by (induction xs) auto
  then show ?thesis
    by (simp add: spoken_def enumerate_segments_def)
qed

subsection \<open>Auto-ingestion\<close>

lemma story_segments_loop_eq:
  assumes "pattern \<noteq> []"
  shows "story_segments_loop pattern texts (acc, k) =
           Inr (acc @ map (cycled_segment pattern) (zip [k..<k + length texts] texts))"
proof (induction texts arbitrary: acc k)
  case Nil
  show ?case by simp
next
  case (Cons t ts)
  have "k < k + length (t # ts)" by simp
  then have "[k..<k + length (t # ts)] = k # [Suc k..<k + length (t # ts)]"
    by (rule upt_conv_Cons)
  moreover have "k + length (t # ts) = Suc k + length ts" by simp
  ultimately have "[k..<k + length (t # ts)] = k # [Suc k..<Suc k + length ts]"
    by (simp only:)
  then have "zip [k..<k + length (t # ts)] (t # ts) = (k, t) # zip [Suc k..<Suc k + length ts] ts"
    by (simp only: zip_Cons_Cons)
  moreover have "story_segments_loop pattern (t # ts) (acc, k) =
      story_segments_loop pattern ts (acc @ [cycled_segment pattern (k, t)], Suc k)"
    using assms by (simp add: cycled_segment_def Let_def)
  ultimately show ?case
    using Cons.IH [of "acc @ [cycled_segment pattern (k, t)]" "Suc k"]
    by (simp only: append_assoc append_Cons append_Nil list.map)
qed

lemma story_segments_loop_empty_pattern:
  "story_segments_loop [] texts (acc, k) = Inr segs \<Longrightarrow> texts = [] \<and> segs = acc"
  by (cases texts) simp_all

lemma story_segments_loop_Inr:
  assumes "story_segments_loop pattern texts ([], 0) = Inr segs"
  shows "length segs = length texts \<and>
         (\<forall>i<length segs. segs ! i = cycled_segment pattern (i, texts ! i))"
proof (cases "pattern = []")
  case True
  then show ?thesis using assms story_segments_loop_empty_pattern by fastforce
next
  case False
  then have "segs = map (cycled_segment pattern) (zip [0..<length texts] texts)"
    using assms by (simp add: story_segments_loop_eq)
  then show ?thesis by simp
qed

lemma bind_lift_InrE:
  assumes "bind (lift r) f = (es, Inr y)"
  obtains x where "r = Inr x" and "f x = (es, Inr y)"
  using assms by (cases r; cases "f (projr r)") (auto simp: bind_def lift_def)

lemma bind_call_InrE:
  assumes "bind (call e r) f = (es, Inr y)"
  obtains es' where "r = None" and "f () = (es', Inr y)" and "es = e # es'"
  using assms by (cases r; cases "f ()") (auto simp: bind_def call_def)

lemma save_story_json_trace:
  "save_story_json ext kwargs story_data = (es, r) \<Longrightarrow> synthesis_calls es = []"
  by (auto simp: save_story_json_def ok_def bind_def call_def emit_def synthesis_calls_def
      split: option.splits if_splits)

lemma auto_ingest_Inr:
  assumes "auto_ingest_text_file ext path kwargs = (es, Inr doc)"
  shows "\<exists>content segs.
           read_text ext path = Inr content \<and>
           story_segments_loop (ingest_pattern kwargs)
             (intelligent_text_splitting content (ingest_length kwargs)) ([], 0) = Inr segs \<and>
           doc = build_story_data ext path kwargs segs \<and>
           synthesis_calls es = []"
proof (cases "path_exists ext path")
  case False
  then show ?thesis using assms by (simp add: auto_ingest_text_file_def raise_def)
next
  case True
  have run: "bind (emit (Print (ReadingTextFile (path_name ext path)))) (\<lambda>_.
        bind (lift (read_text ext path)) (\<lambda>text_content.
        bind (emit (Print (SplittingText (ingest_length kwargs)))) (\<lambda>_.
        bind (lift (story_segments_loop (ingest_pattern kwargs)
                      (intelligent_text_splitting text_content (ingest_length kwargs))
                      ([], 0))) (\<lambda>story_segments.
        bind (emit (Print (GeneratedSegments (length story_segments)))) (\<lambda>_.
        bind (save_story_json ext kwargs
                (build_story_data ext path kwargs story_segments)) (\<lambda>_.
        ok (build_story_data ext path kwargs story_segments))))))) = (es, Inr doc)"
    using assms True by (simp add: auto_ingest_text_file_def)
  from run obtain es1 where
    r1: "bind (lift (read_text ext path)) (\<lambda>text_content.
        bind (emit (Print (SplittingText (ingest_length kwargs)))) (\<lambda>_.
        bind (lift (story_segments_loop (ingest_pattern kwargs)
                      (intelligent_text_splitting text_content (ingest_length kwargs))
                      ([], 0))) (\<lambda>story_segments.
        bind (emit (Print (GeneratedSegments (length story_segments)))) (\<lambda>_.
        bind (save_story_json ext kwargs
                (build_story_data ext path kwargs story_segments)) (\<lambda>_.
        ok (build_story_data ext path kwargs story_segments)))))) = (es1, Inr doc)" and
    e1: "es = Print (ReadingTextFile (path_name ext path)) # es1"
    by (rule bind_emit_InrE)
  from r1 obtain content where
    rd: "read_text ext path = Inr content" and
    r2: "bind (emit (Print (SplittingText (ingest_length kwargs)))) (\<lambda>_.
        bind (lift (story_segments_loop (ingest_pattern kwargs)
                      (intelligent_text_splitting content (ingest_length kwargs))
                      ([], 0))) (\<lambda>story_segments.
        bind (emit (Print (GeneratedSegments (length story_segments)))) (\<lambda>_.
        bind (save_story_json ext kwargs
                (build_story_data ext path kwargs story_segments)) (\<lambda>_.
        ok (build_story_data ext path kwargs story_segments))))) = (es1, Inr doc)"
    by (rule bind_lift_InrE)
  from r2 obtain es2 where
    r3: "bind (lift (story_segments_loop (ingest_pattern kwargs)
                      (intelligent_text_splitting content (ingest_length kwargs))
                      ([], 0))) (\<lambda>story_segments.
        bind (emit (Print (GeneratedSegments (length story_segments)))) (\<lambda>_.
        bind (save_story_json ext kwargs
                (build_story_data ext path kwargs story_segments)) (\<lambda>_.
        ok (build_story_data ext path kwargs story_segments)))) = (es2, Inr doc)" and
    e2: "es1 = Print (SplittingText (ingest_length kwargs)) # es2"
    by (rule bind_emit_InrE)
  from r3 obtain segs where
    lp: "story_segments_loop (ingest_pattern kwargs)
           (intelligent_text_splitting content (ingest_length kwargs)) ([], 0) = Inr segs" and
    r4: "bind (emit (Print (GeneratedSegments (length segs)))) (\<lambda>_.
        bind (save_story_json ext kwargs (build_story_data ext path kwargs segs)) (\<lambda>_.
        ok (build_story_data ext path kwargs segs))) = (es2, Inr doc)"
    by (rule bind_lift_InrE)
  from r4 obtain es3 where
    r5: "bind (save_story_json ext kwargs (build_story_data ext path kwargs segs)) (\<lambda>_.
        ok (build_story_data ext path kwargs segs)) = (es3, Inr doc)" and
    e3: "es2 = Print (GeneratedSegments (length segs)) # es3"
    by (rule bind_emit_InrE)
  from r5 obtain es4 u es5 where
    sv: "save_story_json ext kwargs (build_story_data ext path kwargs segs) = (es4, Inr u)" and
    fin: "ok (build_story_data ext path kwargs segs) = (es5, Inr doc)" and
    e4: "es3 = es4 @ es5"
    by (rule bind_InrE)
  have "doc = build_story_data ext path kwargs segs" and "es5 = []"
    using fin by (simp_all add: ok_def)
  moreover have "synthesis_calls es = []"
    using save_story_json_trace [OF sv] e1 e2 e3 e4 \<open>es5 = []\<close>
    by (simp add: synthesis_calls_def)
  ultimately show ?thesis using rd lp by blast
qed

lemma effective_cycled:
  assumes "doc_settings doc = Some gs" and "set_voice_style gs = Some (py ''neutral'')"
  shows "effective_voice_style doc (cycled_segment pattern (i, t)) =
         pattern ! (i mod length pattern)"
  using assms by (simp add: effective_voice_style_def cycled_segment_def)

lemma ingest_pattern_nonempty:
  "kw_voice_style_pattern kwargs \<noteq> Some [] \<Longrightarrow> ingest_pattern kwargs \<noteq> []"
  by (cases "kw_voice_style_pattern kwargs")
     (simp_all add: ingest_pattern_def DEFAULT_VOICE_PATTERN_def)

lemma save_story_json_returns:
  assumes "\<forall>p d. json_dump ext p d = None"
  shows "snd (save_story_json ext kwargs story_data) = Inr ()"
  using assms
  by (simp add: save_story_json_def ok_def bind_def call_def emit_def split: option.splits)

lemma auto_ingest_returns:
  assumes "path_exists ext path" and "read_text ext path = Inr content"
    and "kw_voice_style_pattern kwargs \<noteq> Some []" and "\<forall>p d. json_dump ext p d = None"
  shows "\<exists>doc. snd (auto_ingest_text_file ext path kwargs) = Inr doc"
proof -
  let ?texts = "intelligent_text_splitting content (ingest_length kwargs)"
  let ?segs = "map (cycled_segment (ingest_pattern kwargs)) (zip [0..<length ?texts] ?texts)"
  have lp: "story_segments_loop (ingest_pattern kwargs) ?texts ([], 0) = Inr ?segs"
    using story_segments_loop_eq [OF ingest_pattern_nonempty [OF assms(3)], of ?texts "[]" 0]
    by simp
  obtain es where sv: "save_story_json ext kwargs (build_story_data ext path kwargs ?segs) =
      (es, Inr ())"
    using save_story_json_returns [OF assms(4)] by (metis prod.collapse)
  have "snd (auto_ingest_text_file ext path kwargs) =
      Inr (build_story_data ext path kwargs ?segs)"
    unfolding auto_ingest_text_file_def
    by (simp add: assms(1,2) lp sv bind_def emit_def lift_def ok_def
        del: story_segments_loop.simps)
  then show ?thesis ..
qed

subsection \<open>Batch processing\<close>

lemma batch_file_eq:
  "batch_file ext out f results =
     (file_trace ext out f, results(path_stem ext f \<mapsto> file_outcome ext out f))"
  by (cases "process_story_from_file ext out f")
     (simp add: batch_file_def file_trace_def file_outcome_def split: sum.splits)

lemma batch_loop_eq:
  "batch_loop ext out fs results =
     (concat (map (file_trace ext out) fs),
      fold (\<lambda>f r. r(path_stem ext f \<mapsto> file_outcome ext out f)) fs results)"
  by (induction fs arbitrary: results) (simp_all add: batch_file_eq)

lemma dom_fold_upd:
  "dom (fold (\<lambda>f r. r(k f \<mapsto> v f)) fs r0) = dom r0 \<union> k ` set fs"
  by (induction fs arbitrary: r0) auto

lemma fold_upd_other:
  "x \<notin> k ` set fs \<Longrightarrow> fold (\<lambda>f r. r(k f \<mapsto> v f)) fs r0 x = r0 x"
  by (induction fs arbitrary: r0) auto

lemma fold_upd_distinct:
  "distinct (map k fs) \<Longrightarrow> f \<in> set fs \<Longrightarrow>
   fold (\<lambda>f r. r(k f \<mapsto> v f)) fs r0 (k f) = Some (v f)"
proof (induction fs arbitrary: r0)
  case Nil
  then show ?case by simp
next
  case (Cons a fs)
  show ?case
  proof (cases "f \<in> set fs")
    case True
    then show ?thesis using Cons by simp
  next
    case False
    then have fa: "f = a" using Cons.prems by simp
    have "k a \<notin> k ` set fs" using Cons.prems by simp
    then have "fold (\<lambda>f r. r(k f \<mapsto> v f)) fs (r0(k a \<mapsto> v a)) (k a) =
               (r0(k a \<mapsto> v a)) (k a)"
      by (rule fold_upd_other)
    then show ?thesis by (simp only: fa fold_simps comp_apply fun_upd_same)
  qed
qed

subsection \<open>Runs without voice cloning\<close>

lemma no_cloning_Nil: "no_cloning []"
  by (simp add: no_cloning_def)

lemma no_cloning_append: "no_cloning (a @ b) \<longleftrightarrow> no_cloning a \<and> no_cloning b"
  by (auto simp: no_cloning_def)

lemma no_cloning_bind:
  assumes "no_cloning (fst m)" and "\<And>x. snd m = Inr x \<Longrightarrow> no_cloning (fst (f x))"
  shows "no_cloning (fst (bind m f))"
proof (cases m)
  case (Pair es r)
  show ?thesis
  proof (cases r)
    case (Inl e)
    then show ?thesis using assms(1) Pair by (simp add: bind_def)
  next
    case (Inr x)
    then show ?thesis
      using assms Pair by (cases "f x") (simp add: bind_def no_cloning_append)
  qed
qed

lemma no_cloning_emit: "no_cloning (fst (emit (Print m)))"
  by (simp add: emit_def no_cloning_def)

lemma no_cloning_ok: "no_cloning (fst (ok x))"
  by (simp add: ok_def no_cloning_def)

lemma no_cloning_lift: "no_cloning (fst (lift r))"
  by (simp add: lift_def no_cloning_def)

lemma no_cloning_raise: "no_cloning (fst (raise e))"
  by (simp add: raise_def no_cloning_def)

lemma no_cloning_init: "no_cloning (fst (StoryNarrator_init ext device dir))"
  by (auto simp: StoryNarrator_init_def AudioGenerator_init_def bind_def emit_def call_def
      no_cloning_def split: option.splits)

lemma no_cloning_concatenate: "no_cloning (fst (concatenate_segments ext files path))"
  by (auto simp: concatenate_segments_def bind_def emit_def call_def no_cloning_def
      split: option.splits)

lemma no_cloning_segment:
  assumes "effective_audio_prompt doc seg = None"
  shows "no_cloning (fst (process_segment ext out name (settings_of doc) n (i, seg)))"
proof (cases "blank seg")
  case True
  then show ?thesis by (simp add: process_segment_blank no_cloning_def)
next
  case False
  have "fst (snd (synthesis_request doc seg)) = None"
    using assms by (simp add: synthesis_request_def truthy_def)
  then show ?thesis
    by (simp add: process_segment_spoken [OF False] no_cloning_def
        split: sum.splits option.splits)
qed

lemma no_cloning_loop:
  assumes "\<forall>(i, seg)\<in>set xs. effective_audio_prompt doc seg = None"
  shows "no_cloning (fst (segments_loop ext out name (settings_of doc) n xs acc))"
  using assms
proof (induction xs arbitrary: acc)
  case Nil
  show ?case by (simp add: no_cloning_ok)
next
  case (Cons x xs)
  obtain i seg where x: "x = (i, seg)" by (cases x)
  show ?case
    unfolding x segments_loop.simps
  proof (rule no_cloning_bind)
    show "no_cloning (fst (process_segment ext out name (settings_of doc) n (i, seg)))"
      using Cons.prems by (simp add: x no_cloning_segment)
  next
    fix r
    show "no_cloning (fst (segments_loop ext out name (settings_of doc) n xs
             (case r of None \<Rightarrow> acc | Some path \<Rightarrow> acc @ [path])))"
      using Cons.prems by (intro Cons.IH) simp
  qed
qed

lemma no_cloning_story:
  assumes "\<forall>seg\<in>set (segments_of doc). effective_audio_prompt doc seg = None"
  shows "no_cloning (fst (process_war_story ext out doc name))"
proof -
  have "\<forall>(i, seg)\<in>set (enumerate_segments doc). effective_audio_prompt doc seg = None"
    using assms by (auto simp: enumerate_segments_def dest: set_zip_rightD)
  then have loop: "no_cloning (fst (segments_loop ext out name (settings_of doc)
      (length (segments_of doc)) (enumerate_segments doc) []))"
    by (rule no_cloning_loop)
  show ?thesis
    unfolding process_war_story_unfold
    by (intro no_cloning_bind no_cloning_emit loop)
       (simp_all add: no_cloning_bind no_cloning_concatenate no_cloning_ok)
qed

lemma no_cloning_save_json: "no_cloning (fst (save_story_json ext kwargs story_data))"
  by (auto simp: save_story_json_def ok_def bind_def call_def emit_def no_cloning_def
      split: option.splits if_splits)

lemma no_cloning_ingest: "no_cloning (fst (auto_ingest_text_file ext path kwargs))"
proof (cases "path_exists ext path")
  case False
  then show ?thesis by (simp add: auto_ingest_text_file_def no_cloning_raise)
next
  case True
  then show ?thesis
    unfolding auto_ingest_text_file_def
    by (simp only: not_True_eq_False if_False)
       (intro no_cloning_bind no_cloning_emit no_cloning_lift no_cloning_ok
          no_cloning_save_json)
qed

lemma ingest_segments_no_prompt:
  assumes "auto_ingest_text_file ext path kwargs = (es, Inr doc)"
    and "\<not> truthy (kw_global_audio_prompt kwargs)"
  shows "\<forall>seg\<in>set (segments_of doc). effective_audio_prompt doc seg = None"
proof -
  from auto_ingest_Inr [OF assms(1)] obtain content segs where
    loop: "story_segments_loop (ingest_pattern kwargs)
             (intelligent_text_splitting content (ingest_length kwargs)) ([], 0) = Inr segs" and
    doc: "doc = build_story_data ext path kwargs segs"
    by blast
  have "seg_audio_prompt seg = None" if mem: "seg \<in> set segs" for seg
  proof -
    obtain i where "i < length segs" and "seg = segs ! i"
      using mem by (auto simp: in_set_conv_nth)
    then show ?thesis
      using story_segments_loop_Inr [OF loop] by (simp add: cycled_segment_def)
  qed
  then show ?thesis
    using assms(2)
    by (simp add: doc build_story_data_def segments_of_def effective_audio_prompt_def)
qed

lemma no_cloning_directly:
  assumes "\<not> truthy (kw_global_audio_prompt kwargs)"
  shows "no_cloning (fst (process_text_file_directly ext out path name kwargs))"
  unfolding process_text_file_directly_def Let_def
proof (rule no_cloning_bind)
  show "no_cloning (fst (auto_ingest_text_file ext path kwargs))"
    by (rule no_cloning_ingest)
next
  fix doc
  assume "snd (auto_ingest_text_file ext path kwargs) = Inr doc"
  then have "auto_ingest_text_file ext path kwargs =
      (fst (auto_ingest_text_file ext path kwargs), Inr doc)"
    by (metis prod.collapse)
  then have "\<forall>seg\<in>set (segments_of doc). effective_audio_prompt doc seg = None"
    using assms by (rule ingest_segments_no_prompt)
  then show "no_cloning (fst (process_war_story ext out doc
      (case name of None \<Rightarrow> path_stem ext path | Some name \<Rightarrow> name)))"
    by (rule no_cloning_story)
qed

lemma no_cloning_auto_mode_None: "no_cloning (fst (auto_mode ext input_file None device))"
proof (cases "path_exists ext input_file")
  case False
  then show ?thesis by (simp add: auto_mode_def no_cloning_emit)
next
  case True
  have "\<not> truthy (kw_global_audio_prompt no_kwargs)"
    by (simp add: no_kwargs_def truthy_def)
  then have "no_cloning (fst (process_text_file_directly ext DEFAULT_OUTPUT_DIR input_file None
      no_kwargs))"
    by (rule no_cloning_directly)
  then show ?thesis
    using True
    by (simp add: auto_mode_def)
       (intro no_cloning_bind no_cloning_emit no_cloning_init, simp_all add: no_cloning_emit)
qed

text \<open>
  \<open>manual_mode\<close> does not test the prompt: once the narrator is set up, the synthesis
  model is called with the prompt path as given.
\<close>

lemma manual_mode_passes_prompt:
  assumes "prompt \<noteq> []" and "mkdir ext DEFAULT_OUTPUT_DIR = None"
    and "from_pretrained ext device = None"
  shows "Generate content (Some prompt) (preset_of voice_style) \<in>
           set (fst (manual_mode ext content voice_style (Some prompt) output device))"
proof -
  have init: "StoryNarrator_init ext device DEFAULT_OUTPUT_DIR =
      ([Mkdir DEFAULT_OUTPUT_DIR, Print LoadingModel, LoadModel device, Print ModelLoaded],
       Inr ())"
    using assms(2,3)
    by (simp add: StoryNarrator_init_def AudioGenerator_init_def bind_def emit_def call_def)
  have gen: "fst (generate_segment_audio ext content voice_style (Some prompt) None) =
      [Generate content (Some prompt) (preset_of voice_style)]"
    using assms(1) by (simp add: generate_segment_audio_eq truthy_def Let_def)
  obtain r where g: "generate_segment_audio ext content voice_style (Some prompt) None =
      ([Generate content (Some prompt) (preset_of voice_style)], r)"
    using gen by (cases "generate_segment_audio ext content voice_style (Some prompt) None") simp
  show ?thesis
    unfolding manual_mode_def init
    by (cases r) (simp_all add: g bind_def emit_def save_audio_def call_def split: option.splits)
qed

subsection \<open>Evaluation on the sample documents\<close>

lemma replicate_2: "replicate 2 x = [x, x]"
  by (simp add: numeral_2_eq_2)

lemmas eval_run = replicate_2 bind_def emit_def ok_def call_def lift_def raise_def Let_def
  process_war_story_def process_segment_def generate_segment_audio_def save_audio_def
  concatenate_segments_def format_03d_def truthy_def VOICE_PRESETS_def
  sample_ext_def sample_doc_def py_def strip_def is_space_def

lemma sample_run:
  "snd (process_war_story sample_ext (py ''out'') sample_doc (py ''demo'')) =
     Inr [py ''out/demo_segment_001.wav'', py ''out/demo_segment_003.wav'']"
  by (simp add: eval_run)

lemma five_split:
  "intelligent_text_splitting five_paragraphs 1 =
     [py ''A.'', py ''B.'', py ''C.'', py ''D.'', py ''E.'']"
  by (simp add: five_paragraphs_def eval_text)

lemma five_loop:
  "story_segments_loop DEFAULT_VOICE_PATTERN [py ''A.'', py ''B.'', py ''C.'', py ''D.'', py ''E.'']
     ([], 0) =
   Inr (map (cycled_segment DEFAULT_VOICE_PATTERN)
          [(0, py ''A.''), (1, py ''B.''), (2, py ''C.''), (3, py ''D.''), (4, py ''E.'')])"
  by (simp add: DEFAULT_VOICE_PATTERN_def cycled_segment_def Let_def)

lemma five_ingest:
  "snd (auto_ingest_text_file sample_ext (py ''story.txt'') five_kwargs) = Inr five_doc"
proof -
  have a: "path_exists sample_ext (py ''story.txt'')" by (simp add: sample_ext_def)
  have b: "read_text sample_ext (py ''story.txt'') = Inr five_paragraphs"
    by (simp add: sample_ext_def)
  have c: "ingest_length five_kwargs = 1"
    by (simp add: ingest_length_def five_kwargs_def no_kwargs_def)
  have d: "ingest_pattern five_kwargs = DEFAULT_VOICE_PATTERN"
    by (simp add: ingest_pattern_def five_kwargs_def no_kwargs_def)
  have e: "save_story_json sample_ext five_kwargs doc = ok ()" for doc
    by (simp add: save_story_json_def five_kwargs_def no_kwargs_def)
  show ?thesis
    unfolding auto_ingest_text_file_def five_doc_def
    by (simp add: a b c d e five_split five_loop bind_def emit_def lift_def ok_def
        del: story_segments_loop.simps)
qed

lemma mod_two_eval:
  "(2::nat) mod Suc (Suc 0) = 0" "(3::nat) mod Suc (Suc 0) = 1" "(4::nat) mod Suc (Suc 0) = 0"
  "Suc (Suc 0) mod Suc (Suc 0) = 0" "Suc (Suc (Suc 0)) mod Suc (Suc 0) = 1"
  "Suc (Suc (Suc (Suc 0))) mod Suc (Suc 0) = 0"
  by presburger+

lemma duo_loop:
  "story_segments_loop [py ''epic'', py ''neutral'']
     [py ''A.'', py ''B.'', py ''C.'', py ''D.'', py ''E.''] ([], 0) =
   Inr (map (cycled_segment [py ''epic'', py ''neutral''])
          [(0, py ''A.''), (1, py ''B.''), (2, py ''C.''), (3, py ''D.''), (4, py ''E.'')])"
  by (simp add: cycled_segment_def Let_def mod_two_eval)

lemma duo_ingest:
  "snd (auto_ingest_text_file sample_ext (py ''story.txt'') duo_kwargs) = Inr duo_doc"
proof -
  have a: "path_exists sample_ext (py ''story.txt'')" by (simp add: sample_ext_def)
  have b: "read_text sample_ext (py ''story.txt'') = Inr five_paragraphs"
    by (simp add: sample_ext_def)
  have c: "ingest_length duo_kwargs = 1"
    by (simp add: ingest_length_def duo_kwargs_def no_kwargs_def)
  have d: "ingest_pattern duo_kwargs = [py ''epic'', py ''neutral'']"
    by (simp add: ingest_pattern_def duo_kwargs_def no_kwargs_def)
  have e: "save_story_json sample_ext duo_kwargs doc = ok ()" for doc
    by (simp add: save_story_json_def duo_kwargs_def no_kwargs_def)
  show ?thesis
    unfolding auto_ingest_text_file_def duo_doc_def
    by (simp add: a b c d e five_split duo_loop bind_def emit_def lift_def ok_def
        del: story_segments_loop.simps)
qed

lemma text_250:
  "intelligent_text_splitting five_paragraphs DEFAULT_SEGMENT_LENGTH =
     [py ''A.'' @ [NL, NL] @ py ''B.'' @ [NL, NL] @ py ''C.'' @ [NL, NL] @ py ''D.'' @ [NL, NL] @
      py ''E.'']"
  by (simp add: five_paragraphs_def DEFAULT_SEGMENT_LENGTH_def eval_text)

lemma auto_doc_run:
  "snd (process_war_story sample_ext DEFAULT_OUTPUT_DIR auto_doc (py ''story'')) =
     Inr [py ''voice_output/story_segment_001.wav'']"
  by (simp add: eval_run auto_doc_def build_story_data_def cycled_segment_def no_kwargs_def
      DEFAULT_VOICE_PATTERN_def DEFAULT_OUTPUT_DIR_def NL_def)

lemma auto_doc_trace:
  "Print (AudioPromptNotFound p) \<notin>
     set (fst (process_war_story sample_ext DEFAULT_OUTPUT_DIR auto_doc (py ''story''))) \<and>
   Print ProceedingWithoutCloning \<notin>
     set (fst (process_war_story sample_ext DEFAULT_OUTPUT_DIR auto_doc (py ''story'')))"
  by (simp add: eval_run auto_doc_def build_story_data_def cycled_segment_def no_kwargs_def
      DEFAULT_VOICE_PATTERN_def DEFAULT_OUTPUT_DIR_def NL_def)

lemma sample_ext_succeeds: "externals_succeed sample_ext"
  by (simp add: externals_succeed_def sample_ext_def)

lemma sample_run_pair:
  "process_war_story sample_ext (py ''out'') sample_doc (py ''demo'') =
     (fst (process_war_story sample_ext (py ''out'') sample_doc (py ''demo'')),
      Inr [py ''out/demo_segment_001.wav'', py ''out/demo_segment_003.wav''])"
  using sample_run by (rule run_eqI)

lemma sample_stems:
  "map (path_stem sample_ext) (glob_json sample_ext (py ''stories'')) =
     [py ''a'', py ''b'', py ''c'']"
  by (simp add: sample_ext_def py_def)

lemma sample_file_b:
  "snd (process_story_from_file sample_ext (py ''out'') (py ''b.json'')) =
     Inl (ExternalError (py ''bad''))"
  by (simp add: process_story_from_file_def bind_def lift_def sample_ext_def)

lemma sample_file_c:
  "snd (process_story_from_file sample_ext (py ''out'') (py ''c.json'')) =
     Inr [py ''out/c_segment_001.wav'', py ''out/c_segment_003.wav'']"
proof -
  have l: "json_load sample_ext (py ''c.json'') = Inr sample_doc"
    by (simp add: sample_ext_def py_def)
  have s: "path_stem sample_ext (py ''c.json'') = py ''c''"
    by (simp add: sample_ext_def py_def)
  have "snd (process_war_story sample_ext (py ''out'') sample_doc (py ''c'')) =
     Inr [py ''out/c_segment_001.wav'', py ''out/c_segment_003.wav'']"
    by (simp add: eval_run)
  then show ?thesis
    unfolding process_story_from_file_def l s
    by (simp add: bind_def lift_def split: prod.splits)
qed

section \<open>The claims\<close>

text \<open>
  Claim C1. For every input text and every positive \<open>target_length\<close>, the segmenter runs
  its accumulate-or-flush rule over the units of the normalized text (the sentences of a
  paragraph longer than one and a half times the target, any other paragraph whole): at each
  unit the accumulator is flushed exactly when it is not empty and its length plus the
  length of the unit exceeds \<open>target_length\<close>; otherwise the unit is appended, and so a
  unit always enters an empty accumulator whatever its own length. Consequently every
  returned segment has at most \<open>target_length\<close> characters, except a segment that consists
  of one unit which is itself longer than \<open>target_length\<close>.
\<close>

theorem segmenter_flush_rule_and_bound:
  assumes "0 < T"
  shows "intelligent_text_splitting text T = finish (run_units T (units_of text T)) \<and>
    (\<forall>k<length (units_of text T).
       run_units T (take (Suc k) (units_of text T)) =
         (let (segs, cur) = run_units T (take k (units_of text T));
              u = units_of text T ! k
          in if cur \<noteq> [] \<and> int (length cur) + int (length (unit_text u)) > T
             then (segs @ [strip cur], unit_text u @ unit_sep u)
             else (segs, cur @ unit_text u @ unit_sep u))) \<and>
    (\<forall>s\<in>set (intelligent_text_splitting text T).
       int (length s) \<le> T \<or>
       (\<exists>u\<in>set (units_of text T). s = unit_text u \<and> T < int (length (unit_text u))))"
proof (intro conjI allI impI ballI)
  show "intelligent_text_splitting text T = finish (run_units T (units_of text T))"
    by (rule splitting_as_units)
next
  fix k assume "k < length (units_of text T)"
  then show "run_units T (take (Suc k) (units_of text T)) =
         (let (segs, cur) = run_units T (take k (units_of text T));
              u = units_of text T ! k
          in if cur \<noteq> [] \<and> int (length cur) + int (length (unit_text u)) > T
             then (segs @ [strip cur], unit_text u @ unit_sep u)
             else (segs, cur @ unit_text u @ unit_sep u))"
    by (cases "run_units T (take k (units_of text T))")
       (auto simp: run_units_Suc unit_step_eq Let_def)
next
  fix s assume s: "s \<in> set (intelligent_text_splitting text T)"
  have "bounded_state T (units_of text T) (run_units T (units_of text T))"
    by (rule bounded_state_run) (simp add: stripped_units)
  then have "within_target T (units_of text T) s"
    using s by (simp add: finish_bounded splitting_as_units)
  then show "int (length s) \<le> T \<or>
       (\<exists>u\<in>set (units_of text T). s = unit_text u \<and> T < int (length (unit_text u)))"
    by (simp add: within_target_def)
qed

text \<open>
  The text \<^verbatim>\<open>Aa. Bbbbbbbbbbbb. C.\<close>, a blank line, \<^verbatim>\<open>xy\<close>, with target length 5:
  the second sentence flushes the first and is itself longer than the target.
\<close>

theorem segmenter_flush_rule_and_bound_witness:
  "(0::int) < 5 \<and>
   intelligent_text_splitting sample_text 5 = [py ''Aa.'', py ''Bbbbbbbbbbbb.'', py ''C. xy''] \<and>
   run_units 5 (take 1 (units_of sample_text 5)) = ([], py ''Aa. '') \<and>
   run_units 5 (take 2 (units_of sample_text 5)) = ([py ''Aa.''], py ''Bbbbbbbbbbbb. '') \<and>
   int (length (py ''C. xy'')) \<le> 5 \<and>
   (\<exists>u\<in>set (units_of sample_text 5).
      py ''Bbbbbbbbbbbb.'' = unit_text u \<and> 5 < int (length (unit_text u)))"
proof -
  have h: "(0::int) < 5" by simp
  note t = segmenter_flush_rule_and_bound [OF h, of sample_text]
  have segs: "intelligent_text_splitting sample_text 5 =
      [py ''Aa.'', py ''Bbbbbbbbbbbb.'', py ''C. xy'']"
    by (rule sample_segments)
  have us: "units_of sample_text 5 =
      [Sentence (py ''Aa.''), Sentence (py ''Bbbbbbbbbbbb.''), Sentence (py ''C.''),
       Paragraph (py ''xy'')]"
    by (rule sample_units)
  have one: "run_units 5 (take 1 (units_of sample_text 5)) = ([], py ''Aa. '')"
    by (simp add: us run_units_def sentence_step_def py_def SP_def)
  have "(1::nat) < length (units_of sample_text 5)" by (simp add: us)
  with t have "run_units 5 (take (Suc 1) (units_of sample_text 5)) =
         (let (segs, cur) = run_units 5 (take 1 (units_of sample_text 5));
              u = units_of sample_text 5 ! 1
          in if cur \<noteq> [] \<and> int (length cur) + int (length (unit_text u)) > 5
             then (segs @ [strip cur], unit_text u @ unit_sep u)
             else (segs, cur @ unit_text u @ unit_sep u))"
    by blast
  then have two: "run_units 5 (take 2 (units_of sample_text 5)) =
      ([py ''Aa.''], py ''Bbbbbbbbbbbb. '')"
    unfolding one by (simp add: us py_def SP_def strip_def is_space_def)
  from t have "\<forall>s\<in>set (intelligent_text_splitting sample_text 5).
       int (length s) \<le> 5 \<or>
       (\<exists>u\<in>set (units_of sample_text 5). s = unit_text u \<and> 5 < int (length (unit_text u)))"
    by blast
  then have "int (length (py ''Bbbbbbbbbbbb.'')) \<le> 5 \<or>
       (\<exists>u\<in>set (units_of sample_text 5).
          py ''Bbbbbbbbbbbb.'' = unit_text u \<and> 5 < int (length (unit_text u)))"
    unfolding segs by simp
  moreover have "\<not> int (length (py ''Bbbbbbbbbbbb.'')) \<le> 5" by (simp add: py_def)
  ultimately have big: "\<exists>u\<in>set (units_of sample_text 5).
          py ''Bbbbbbbbbbbb.'' = unit_text u \<and> 5 < int (length (unit_text u))"
    by blast
  have small: "int (length (py ''C. xy'')) \<le> 5" by (simp add: py_def)
  show ?thesis using h segs one two small big by blast
qed

text \<open>
  Claim C2. For every text and every positive \<open>target_length\<close>, every returned segment is
  not empty and equal to its own trimmed form; the characters other than whitespace of the
  concatenated segments are, in order, those of the normalized input (the separators the
  segmenter removes and inserts are all whitespace); and the empty input gives no segment.
\<close>

theorem segments_trimmed_and_lossless:
  assumes "0 < T"
  shows "(\<forall>s\<in>set (intelligent_text_splitting text T). s \<noteq> [] \<and> strip s = s) \<and>
    filter (\<lambda>c. \<not> is_space c) (concat (intelligent_text_splitting text T)) =
      filter (\<lambda>c. \<not> is_space c) (clean_text text) \<and>
    intelligent_text_splitting [] T = []"
proof -
  have ts: "trimmed_state (run_units T (units_of text T))"
    by (rule trimmed_state_run) (simp add: stripped_units)
  have a: "\<forall>s\<in>set (intelligent_text_splitting text T). s \<noteq> [] \<and> strip s = s"
  proof
    fix s assume "s \<in> set (intelligent_text_splitting text T)"
    then have "s \<in> set (finish (run_units T (units_of text T)))"
      by (simp add: splitting_as_units)
    with ts show "s \<noteq> [] \<and> strip s = s" by (rule finish_trimmed)
  qed
  have "non_space (concat (intelligent_text_splitting text T)) = non_space (clean_text text)"
    by (simp add: splitting_as_units content_finish run_units_def state_content_fold
        content_units) (simp add: state_content_def non_space_def)
  then have b: "filter (\<lambda>c. \<not> is_space c) (concat (intelligent_text_splitting text T)) =
      filter (\<lambda>c. \<not> is_space c) (clean_text text)"
    by (simp add: non_space_def)
  have c: "intelligent_text_splitting [] T = []"
    by (simp add: intelligent_text_splitting_def clean_text_Nil paragraphs_of_def strip_def)
  from a b c show ?thesis by blast
qed

text \<open>The same text and target length.\<close>

theorem segments_trimmed_and_lossless_witness:
  "(0::int) < 5 \<and>
   intelligent_text_splitting sample_text 5 = [py ''Aa.'', py ''Bbbbbbbbbbbb.'', py ''C. xy''] \<and>
   py ''C. xy'' \<noteq> [] \<and> strip (py ''C. xy'') = py ''C. xy'' \<and>
   filter (\<lambda>c. \<not> is_space c) (clean_text sample_text) = py ''Aa.Bbbbbbbbbbbb.C.xy'' \<and>
   intelligent_text_splitting [] 5 = []"
proof -
  have h: "(0::int) < 5" by simp
  note t = segments_trimmed_and_lossless [OF h, of sample_text]
  have segs: "intelligent_text_splitting sample_text 5 =
      [py ''Aa.'', py ''Bbbbbbbbbbbb.'', py ''C. xy'']"
    by (rule sample_segments)
  from t have "\<forall>s\<in>set (intelligent_text_splitting sample_text 5). s \<noteq> [] \<and> strip s = s"
    by blast
  then have a: "py ''C. xy'' \<noteq> [] \<and> strip (py ''C. xy'') = py ''C. xy''"
    unfolding segs by simp
  from t have "filter (\<lambda>c. \<not> is_space c) (concat (intelligent_text_splitting sample_text 5)) =
      filter (\<lambda>c. \<not> is_space c) (clean_text sample_text)"
    by blast
  then have b: "filter (\<lambda>c. \<not> is_space c) (clean_text sample_text) = py ''Aa.Bbbbbbbbbbbb.C.xy''"
    unfolding segs by (simp add: py_def is_space_def)
  from t have c: "intelligent_text_splitting [] 5 = []" by blast
  show ?thesis using h segs a b c by blast
qed

text \<open>
  Claim C3 says that \<open>clean_text\<close> is idempotent. The function is total and deterministic,
  but on the string \<^verbatim>\<open>, ", "'").replace(").replace(\<close> a first application yields
  \<^verbatim>\<open>, "'").replace(\<close> and a second application yields \<^verbatim>\<open>'\<close>: the line meant
  to replace quotation marks replaces a 15-character string instead, and a replacement can
  complete a new occurrence of that string.
\<close>

theorem clean_text_not_idempotent:
  "clean_text nested_quote_text = quote_literal \<and>
   clean_text (clean_text nested_quote_text) = [39] \<and>
   clean_text (clean_text nested_quote_text) \<noteq> clean_text nested_quote_text"
  by (simp add: nested_quote_text_def eval_text)

text \<open>
  Claim C4. Let \<open>pattern\<close> be the \<open>voice_style_pattern\<close> that the caller passes to
  auto-ingestion, or \<open>neutral, calm, neutral\<close> when the caller passes none. In the document
  that auto-ingestion returns, the segment at index \<open>i\<close> (from 0) resolves to the voice style
  \<open>pattern[i mod len(pattern)]\<close>, and it carries a \<open>voice_style\<close> field exactly when that
  style differs from \<open>neutral\<close> (the field then holds the style). For the pattern
  \<open>neutral, calm, neutral\<close> and five segments the resolved styles are
  \<open>neutral, calm, neutral, neutral, calm\<close> and only the segments at indices 1 and 4 carry
  the field. Auto-ingestion does return a document when the text file exists and can be
  read, the pattern passed is not the empty list and writing the JSON file does not raise.
\<close>

theorem voice_style_cycle:
  "(auto_ingest_text_file ext path kwargs = (es, Inr doc) \<and>
    (kw_voice_style_pattern kwargs = Some pattern \<or>
     kw_voice_style_pattern kwargs = None \<and>
     pattern = [py ''neutral'', py ''calm'', py ''neutral'']) \<longrightarrow>
      doc_segments doc = Some (segments_of doc) \<and>
      (\<forall>i<length (segments_of doc).
         effective_voice_style doc (segments_of doc ! i) = pattern ! (i mod length pattern) \<and>
         seg_voice_style (segments_of doc ! i) =
           (if pattern ! (i mod length pattern) \<noteq> py ''neutral''
            then Some (pattern ! (i mod length pattern)) else None)) \<and>
      (pattern = [py ''neutral'', py ''calm'', py ''neutral''] \<and>
       length (segments_of doc) = 5 \<longrightarrow>
         map (effective_voice_style doc) (segments_of doc) =
           [py ''neutral'', py ''calm'', py ''neutral'', py ''neutral'', py ''calm''] \<and>
         map seg_voice_style (segments_of doc) =
           [None, Some (py ''calm''), None, None, Some (py ''calm'')])) \<and>
   (path_exists ext path \<and> read_text ext path = Inr content \<and>
    kw_voice_style_pattern kwargs \<noteq> Some [] \<and> (\<forall>p d. json_dump ext p d = None) \<longrightarrow>
      (\<exists>doc'. snd (auto_ingest_text_file ext path kwargs) = Inr doc'))"
proof (rule conjI)
  show "path_exists ext path \<and> read_text ext path = Inr content \<and>
    kw_voice_style_pattern kwargs \<noteq> Some [] \<and> (\<forall>p d. json_dump ext p d = None) \<longrightarrow>
      (\<exists>doc'. snd (auto_ingest_text_file ext path kwargs) = Inr doc')"
  proof (rule impI, elim conjE)
    assume "path_exists ext path" and "read_text ext path = Inr content"
      and "kw_voice_style_pattern kwargs \<noteq> Some []" and "\<forall>p d. json_dump ext p d = None"
    then show "\<exists>doc'. snd (auto_ingest_text_file ext path kwargs) = Inr doc'"
      by (rule auto_ingest_returns)
  qed
next
  show "auto_ingest_text_file ext path kwargs = (es, Inr doc) \<and>
    (kw_voice_style_pattern kwargs = Some pattern \<or>
     kw_voice_style_pattern kwargs = None \<and>
     pattern = [py ''neutral'', py ''calm'', py ''neutral'']) \<longrightarrow>
      doc_segments doc = Some (segments_of doc) \<and>
      (\<forall>i<length (segments_of doc).
         effective_voice_style doc (segments_of doc ! i) = pattern ! (i mod length pattern) \<and>
         seg_voice_style (segments_of doc ! i) =
           (if pattern ! (i mod length pattern) \<noteq> py ''neutral''
            then Some (pattern ! (i mod length pattern)) else None)) \<and>
      (pattern = [py ''neutral'', py ''calm'', py ''neutral''] \<and>
       length (segments_of doc) = 5 \<longrightarrow>
         map (effective_voice_style doc) (segments_of doc) =
           [py ''neutral'', py ''calm'', py ''neutral'', py ''neutral'', py ''calm''] \<and>
         map seg_voice_style (segments_of doc) =
           [None, Some (py ''calm''), None, None, Some (py ''calm'')])"
  proof (rule impI, elim conjE)
    assume run: "auto_ingest_text_file ext path kwargs = (es, Inr doc)"
      and given: "kw_voice_style_pattern kwargs = Some pattern \<or>
         kw_voice_style_pattern kwargs = None \<and>
         pattern = [py ''neutral'', py ''calm'', py ''neutral'']"
    from given have used: "ingest_pattern kwargs = pattern"
      by (auto simp: ingest_pattern_def DEFAULT_VOICE_PATTERN_def)
    from auto_ingest_Inr [OF run] obtain content' segs where
      loop: "story_segments_loop (ingest_pattern kwargs)
               (intelligent_text_splitting content' (ingest_length kwargs)) ([], 0) = Inr segs" and
      doc: "doc = build_story_data ext path kwargs segs"
      by blast
    have segs: "doc_segments doc = Some segs"
      by (simp add: doc build_story_data_def)
    have gs: "doc_settings doc =
             Some \<lparr>set_voice_style = Some (py ''neutral''),
                   set_audio_prompt =
                     (if truthy (kw_global_audio_prompt kwargs)
                      then kw_global_audio_prompt kwargs else None)\<rparr>"
      by (simp add: doc build_story_data_def)
    let ?texts = "intelligent_text_splitting content' (ingest_length kwargs)"
    have nth: "segs ! i = cycled_segment pattern (i, ?texts ! i)" if "i < length segs" for i
      using story_segments_loop_Inr [OF loop] that unfolding used by simp
    have eff: "effective_voice_style doc (segs ! i) = pattern ! (i mod length pattern)"
      if "i < length segs" for i
      using nth [OF that] gs by (simp add: effective_cycled)
    have sty: "seg_voice_style (segs ! i) =
        (if pattern ! (i mod length pattern) \<noteq> py ''neutral''
         then Some (pattern ! (i mod length pattern)) else None)"
      if "i < length segs" for i
      using nth [OF that] by (simp add: cycled_segment_def)
    have five: "map (effective_voice_style doc) segs =
            [py ''neutral'', py ''calm'', py ''neutral'', py ''neutral'', py ''calm''] \<and>
          map seg_voice_style segs = [None, Some (py ''calm''), None, None, Some (py ''calm'')]"
      if p: "pattern = [py ''neutral'', py ''calm'', py ''neutral'']" and len: "length segs = 5"
    proof -
      obtain a b c d e where abc: "segs = [a, b, c, d, e]"
        using len by (auto simp: length_Suc_conv eval_nat_numeral)
      have "effective_voice_style doc a = py ''neutral''"
           "effective_voice_style doc b = py ''calm''"
           "effective_voice_style doc c = py ''neutral''"
           "effective_voice_style doc d = py ''neutral''"
           "effective_voice_style doc e = py ''calm''"
        using eff [of 0] eff [of 1] eff [of 2] eff [of 3] eff [of 4]
        unfolding p abc by simp_all
      moreover have "seg_voice_style a = None" "seg_voice_style b = Some (py ''calm'')"
           "seg_voice_style c = None" "seg_voice_style d = None"
           "seg_voice_style e = Some (py ''calm'')"
        using sty [of 0] sty [of 1] sty [of 2] sty [of 3] sty [of 4] neutral_neq_calm
        unfolding p abc by simp_all
      ultimately show ?thesis by (simp add: abc)
    qed
    have so: "segments_of doc = segs"
      by (simp add: segments_of_def segs)
    show "doc_segments doc = Some (segments_of doc) \<and>
      (\<forall>i<length (segments_of doc).
         effective_voice_style doc (segments_of doc ! i) = pattern ! (i mod length pattern) \<and>
         seg_voice_style (segments_of doc ! i) =
           (if pattern ! (i mod length pattern) \<noteq> py ''neutral''
            then Some (pattern ! (i mod length pattern)) else None)) \<and>
      (pattern = [py ''neutral'', py ''calm'', py ''neutral''] \<and>
       length (segments_of doc) = 5 \<longrightarrow>
         map (effective_voice_style doc) (segments_of doc) =
           [py ''neutral'', py ''calm'', py ''neutral'', py ''neutral'', py ''calm''] \<and>
         map seg_voice_style (segments_of doc) =
           [None, Some (py ''calm''), None, None, Some (py ''calm'')])"
      unfolding so
    proof (intro conjI allI impI)
      show "doc_segments doc = Some segs" by (rule segs)
    next
      fix i assume "i < length segs"
      then show "effective_voice_style doc (segs ! i) = pattern ! (i mod length pattern)"
        by (rule eff)
    next
      fix i assume "i < length segs"
      then show "seg_voice_style (segs ! i) =
        (if pattern ! (i mod length pattern) \<noteq> py ''neutral''
         then Some (pattern ! (i mod length pattern)) else None)"
        by (rule sty)
    next
      assume "pattern = [py ''neutral'', py ''calm'', py ''neutral''] \<and> length segs = 5"
      then show "map (effective_voice_style doc) segs =
            [py ''neutral'', py ''calm'', py ''neutral'', py ''neutral'', py ''calm'']"
        using five by blast
    next
      assume "pattern = [py ''neutral'', py ''calm'', py ''neutral''] \<and> length segs = 5"
      then show "map seg_voice_style segs =
          [None, Some (py ''calm''), None, None, Some (py ''calm'')]"
        using five by blast
    qed
  qed
qed

text \<open>
  Five one-sentence paragraphs, ingested with target length 1: once with the pattern
  \<open>epic, neutral\<close> passed by the caller, once with no pattern passed.
\<close>

theorem voice_style_cycle_witness:
  "kw_voice_style_pattern duo_kwargs = Some [py ''epic'', py ''neutral''] \<and>
   snd (auto_ingest_text_file sample_ext (py ''story.txt'') duo_kwargs) = Inr duo_doc \<and>
   length (segments_of duo_doc) = 5 \<and>
   map (effective_voice_style duo_doc) (segments_of duo_doc) =
     [py ''epic'', py ''neutral'', py ''epic'', py ''neutral'', py ''epic''] \<and>
   map seg_voice_style (segments_of duo_doc) =
     [Some (py ''epic''), None, Some (py ''epic''), None, Some (py ''epic'')] \<and>
   kw_voice_style_pattern five_kwargs = None \<and>
   snd (auto_ingest_text_file sample_ext (py ''story.txt'') five_kwargs) = Inr five_doc \<and>
   length (segments_of five_doc) = 5 \<and>
   map (effective_voice_style five_doc) (segments_of five_doc) =
     [py ''neutral'', py ''calm'', py ''neutral'', py ''neutral'', py ''calm''] \<and>
   map seg_voice_style (segments_of five_doc) =
     [None, Some (py ''calm''), None, None, Some (py ''calm'')] \<and>
   path_exists sample_ext (py ''story.txt'') \<and>
   read_text sample_ext (py ''story.txt'') = Inr five_paragraphs \<and>
   kw_voice_style_pattern duo_kwargs \<noteq> Some [] \<and>
   (\<forall>p d. json_dump sample_ext p d = None) \<and>
   (\<exists>doc'. snd (auto_ingest_text_file sample_ext (py ''story.txt'') duo_kwargs) = Inr doc')"
proof -
  have run2: "auto_ingest_text_file sample_ext (py ''story.txt'') duo_kwargs =
      (fst (auto_ingest_text_file sample_ext (py ''story.txt'') duo_kwargs), Inr duo_doc)"
    using duo_ingest by (rule run_eqI)
  have pat2: "kw_voice_style_pattern duo_kwargs = Some [py ''epic'', py ''neutral'']"
    by (simp add: duo_kwargs_def no_kwargs_def)
  note t2 = voice_style_cycle [THEN conjunct1, THEN mp, OF conjI [OF run2 disjI1 [OF pat2]]]
  note all2 = t2 [THEN conjunct2, THEN conjunct1, rule_format]
  have len2: "length (segments_of duo_doc) = 5"
    by (simp add: segments_of_def duo_doc_def build_story_data_def)
  obtain a b c d e where abc: "segments_of duo_doc = [a, b, c, d, e]"
    using len2 by (auto simp: length_Suc_conv eval_nat_numeral)
  have en: "py ''epic'' \<noteq> py ''neutral''" by (simp add: py_def)
  have "effective_voice_style duo_doc a = py ''epic''"
       "effective_voice_style duo_doc b = py ''neutral''"
       "effective_voice_style duo_doc c = py ''epic''"
       "effective_voice_style duo_doc d = py ''neutral''"
       "effective_voice_style duo_doc e = py ''epic''"
    using all2 [of 0] all2 [of 1] all2 [of 2] all2 [of 3] all2 [of 4]
    unfolding abc by (simp_all add: mod_two_eval)
  then have eff2: "map (effective_voice_style duo_doc) (segments_of duo_doc) =
     [py ''epic'', py ''neutral'', py ''epic'', py ''neutral'', py ''epic'']"
    by (simp add: abc)
  have "seg_voice_style a = Some (py ''epic'')" "seg_voice_style b = None"
       "seg_voice_style c = Some (py ''epic'')" "seg_voice_style d = None"
       "seg_voice_style e = Some (py ''epic'')"
    using all2 [of 0] all2 [of 1] all2 [of 2] all2 [of 3] all2 [of 4] en
    unfolding abc by (simp_all add: mod_two_eval)
  then have sty2: "map seg_voice_style (segments_of duo_doc) =
     [Some (py ''epic''), None, Some (py ''epic''), None, Some (py ''epic'')]"
    by (simp add: abc)
  have run: "auto_ingest_text_file sample_ext (py ''story.txt'') five_kwargs =
      (fst (auto_ingest_text_file sample_ext (py ''story.txt'') five_kwargs), Inr five_doc)"
    using five_ingest by (rule run_eqI)
  have pat: "kw_voice_style_pattern five_kwargs = None"
    by (simp add: five_kwargs_def no_kwargs_def)
  note t = voice_style_cycle [THEN conjunct1, THEN mp,
      OF conjI [OF run disjI2 [OF conjI [OF pat refl]]], THEN conjunct2, THEN conjunct2]
  have len: "length (segments_of five_doc) = 5"
    by (simp add: segments_of_def five_doc_def build_story_data_def)
  from refl len have "[py ''neutral'', py ''calm'', py ''neutral''] =
      [py ''neutral'', py ''calm'', py ''neutral''] \<and> length (segments_of five_doc) = 5" ..
  with t have five: "map (effective_voice_style five_doc) (segments_of five_doc) =
          [py ''neutral'', py ''calm'', py ''neutral'', py ''neutral'', py ''calm''] \<and>
        map seg_voice_style (segments_of five_doc) =
          [None, Some (py ''calm''), None, None, Some (py ''calm'')]"
    by (rule mp)
  have a: "path_exists sample_ext (py ''story.txt'')" by (simp add: sample_ext_def)
  have b: "read_text sample_ext (py ''story.txt'') = Inr five_paragraphs"
    by (simp add: sample_ext_def)
  have ne: "kw_voice_style_pattern duo_kwargs \<noteq> Some []"
    by (simp add: pat2)
  have jd: "\<forall>p d. json_dump sample_ext p d = None"
    by (simp add: sample_ext_def)
  note ret = voice_style_cycle [THEN conjunct2, THEN mp,
      OF conjI [OF a conjI [OF b conjI [OF ne jd]]]]
  from pat2 duo_ingest len2 eff2 sty2 pat five_ingest len five a b ne jd ret
  show ?thesis by (intro conjI) simp_all
qed

text \<open>
  Claim C5. A segment whose text is empty or whitespace only is skipped by the orchestrator
  without any effect and without error. When \<open>process_war_story\<close> returns, the paths it
  returns are, in order, those of the segments that are not blank, each named
  \<open>{name}_segment_{index:03d}.wav\<close> with the 1-based position of the segment in the
  document (so a skipped segment leaves a gap in the numbering), and exactly these files
  were saved. It does return when the synthesis model and the audio library do not raise.
\<close>

theorem skipped_segments_leave_gaps:
  "(blank seg \<longrightarrow> process_segment ext out name gs n (i, seg) = ([], Inr None)) \<and>
   (process_war_story ext out doc name = (es, Inr files) \<longrightarrow>
      files = map (\<lambda>(i, seg). path_join ext out
                     (name @ py ''_segment_'' @ format_03d (i + 1) @ py ''.wav''))
                (filter (\<lambda>(i, seg). \<not> blank seg)
                   (zip [0..<length (segments_of doc)] (segments_of doc))) \<and>
      saved_paths es = files) \<and>
   (externals_succeed ext \<longrightarrow>
      (\<exists>es files. process_war_story ext out doc name = (es, Inr files)))"
proof (intro conjI impI)
  assume "blank seg"
  then show "process_segment ext out name gs n (i, seg) = ([], Inr None)"
    by (rule process_segment_blank)
next
  assume run: "process_war_story ext out doc name = (es, Inr files)"
  from process_war_story_Inr [OF run]
  show "files = map (\<lambda>(i, seg). path_join ext out
                     (name @ py ''_segment_'' @ format_03d (i + 1) @ py ''.wav''))
                (filter (\<lambda>(i, seg). \<not> blank seg)
                   (zip [0..<length (segments_of doc)] (segments_of doc)))"
    by (simp add: spoken_def enumerate_segments_def segment_file_def)
  from process_war_story_Inr [OF run] show "saved_paths es = files" by simp
next
  assume "externals_succeed ext"
  then show "\<exists>es files. process_war_story ext out doc name = (es, Inr files)"
    by (rule process_war_story_succeeds)
qed

text \<open>A document of three segments whose second is a single space: files 001 and 003.\<close>

theorem skipped_segments_leave_gaps_witness:
  "blank blank_segment \<and>
   process_segment sample_ext (py ''out'') (py ''demo'') (settings_of sample_doc) 3
     (1, blank_segment) = ([], Inr None) \<and>
   segments_of sample_doc ! 1 = blank_segment \<and>
   snd (process_war_story sample_ext (py ''out'') sample_doc (py ''demo'')) =
     Inr [py ''out/demo_segment_001.wav'', py ''out/demo_segment_003.wav''] \<and>
   saved_paths (fst (process_war_story sample_ext (py ''out'') sample_doc (py ''demo''))) =
     [py ''out/demo_segment_001.wav'', py ''out/demo_segment_003.wav''] \<and>
   externals_succeed sample_ext"
proof -
  note t = skipped_segments_leave_gaps [where seg = blank_segment and ext = sample_ext
      and out = "py ''out''" and name = "py ''demo''" and gs = "settings_of sample_doc"
      and n = 3 and i = 1 and doc = sample_doc
      and es = "fst (process_war_story sample_ext (py ''out'') sample_doc (py ''demo''))"
      and files = "[py ''out/demo_segment_001.wav'', py ''out/demo_segment_003.wav'']"]
  have b: "blank blank_segment"
    by (simp add: blank_def blank_segment_def py_def strip_def is_space_def)
  have s: "segments_of sample_doc ! 1 = blank_segment"
    by (simp add: segments_of_def sample_doc_def blank_segment_def)
  from t [THEN conjunct1] b
  have skip: "process_segment sample_ext (py ''out'') (py ''demo'') (settings_of sample_doc) 3
     (1, blank_segment) = ([], Inr None)"
    by (rule mp)
  from t [THEN conjunct2, THEN conjunct1] sample_run_pair
  have "[py ''out/demo_segment_001.wav'', py ''out/demo_segment_003.wav''] =
      map (\<lambda>(i, seg). path_join sample_ext (py ''out'')
                     (py ''demo'' @ py ''_segment_'' @ format_03d (i + 1) @ py ''.wav''))
                (filter (\<lambda>(i, seg). \<not> blank seg)
                   (zip [0..<length (segments_of sample_doc)] (segments_of sample_doc))) \<and>
      saved_paths (fst (process_war_story sample_ext (py ''out'') sample_doc (py ''demo''))) =
        [py ''out/demo_segment_001.wav'', py ''out/demo_segment_003.wav'']"
    by (rule mp)
  then show ?thesis
    using b s skip sample_run sample_ext_succeeds by simp
qed

text \<open>
  Claim C6. \<open>batch_process_stories\<close> never raises. Its mapping has an entry for the name of
  every JSON file found; every file is processed (its own effects are part of the run,
  whatever happened to the files before it); when processing a file raises, the error is
  printed with the file's name. The mapping is keyed by the names (stems) of the files:
  when these are distinct, a file whose processing raises is recorded with the empty list
  and a file whose processing returns is recorded with the paths returned.
\<close>

theorem batch_isolates_failures:
  "\<exists>es results.
     batch_process_stories ext out dir = (es, Inr results) \<and>
     dom results = path_stem ext ` set (glob_json ext dir) \<and>
     (\<forall>f\<in>set (glob_json ext dir).
        (\<exists>before after.
           es = before @ fst (process_story_from_file ext out f) @ after) \<and>
        (\<forall>e. snd (process_story_from_file ext out f) = Inl e \<longrightarrow>
           Print (ErrorProcessing (path_name ext f) e) \<in> set es) \<and>
        (distinct (map (path_stem ext) (glob_json ext dir)) \<longrightarrow>
           results (path_stem ext f) =
             Some (case snd (process_story_from_file ext out f) of
                     Inl e \<Rightarrow> []
                   | Inr files \<Rightarrow> files)))"
proof (cases "glob_json ext dir = []")
  case True
  then show ?thesis by (simp add: batch_process_stories_def)
next
  case False
  let ?fs = "glob_json ext dir"
  let ?es = "Print (FoundStoryFiles (length ?fs)) # concat (map (file_trace ext out) ?fs)"
  let ?results = "fold (\<lambda>f r. r(path_stem ext f \<mapsto> file_outcome ext out f)) ?fs Map.empty"
  have run: "batch_process_stories ext out dir = (?es, Inr ?results)"
    using False by (simp add: batch_process_stories_def batch_loop_eq Let_def)
  have dom: "dom ?results = path_stem ext ` set ?fs"
    by (simp add: dom_fold_upd)
  have each: "(\<exists>before after. ?es = before @ fst (process_story_from_file ext out f) @ after) \<and>
        (\<forall>e. snd (process_story_from_file ext out f) = Inl e \<longrightarrow>
           Print (ErrorProcessing (path_name ext f) e) \<in> set ?es) \<and>
        (distinct (map (path_stem ext) ?fs) \<longrightarrow>
           ?results (path_stem ext f) =
             Some (case snd (process_story_from_file ext out f) of
                     Inl e \<Rightarrow> []
                   | Inr files \<Rightarrow> files))"
    if f: "f \<in> set ?fs" for f
  proof -
    obtain pre post where split: "?fs = pre @ f # post"
      using f by (auto simp: in_set_conv_decomp)
    have "?es = (Print (FoundStoryFiles (length ?fs)) # concat (map (file_trace ext out) pre) @
                 [Print BlankLineAndRule, Print (Processing (path_name ext f)), Print Rule]) @
                fst (process_story_from_file ext out f) @
                ([case snd (process_story_from_file ext out f) of
                    Inl e \<Rightarrow> Print (ErrorProcessing (path_name ext f) e)
                  | Inr files \<Rightarrow> Print (SuccessfullyProcessed (path_name ext f))] @
                 concat (map (file_trace ext out) post))"
      by (subst (2) split) (simp add: file_trace_def)
    then have a: "\<exists>before after. ?es = before @ fst (process_story_from_file ext out f) @ after"
      by blast
    have r: "?results (path_stem ext f) = Some (file_outcome ext out f)"
      if "distinct (map (path_stem ext) ?fs)"
      using that f by (rule fold_upd_distinct)
    have "set (file_trace ext out f) \<subseteq> set ?es" using f by auto
    then have b: "snd (process_story_from_file ext out f) = Inl e \<Longrightarrow>
        Print (ErrorProcessing (path_name ext f) e) \<in> set ?es" for e
      by (auto simp: file_trace_def)
    show ?thesis
      using a r b by (simp add: file_outcome_def)
  qed
  show ?thesis using run dom each by blast
qed

text \<open>Three files, of which the second cannot be loaded.\<close>

theorem batch_isolates_failures_witness:
  "distinct (map (path_stem sample_ext) (glob_json sample_ext (py ''stories''))) \<and>
   (\<exists>es results.
      batch_process_stories sample_ext (py ''out'') (py ''stories'') = (es, Inr results) \<and>
      dom results = {py ''a'', py ''b'', py ''c''} \<and>
      results (py ''b'') = Some [] \<and>
      Print (ErrorProcessing (py ''b.json'') (ExternalError (py ''bad''))) \<in> set es \<and>
      results (py ''c'') = Some [py ''out/c_segment_001.wav'', py ''out/c_segment_003.wav''])"
proof -
  have d: "distinct (map (path_stem sample_ext) (glob_json sample_ext (py ''stories'')))"
    unfolding sample_stems by (simp add: py_def)
  have fs: "glob_json sample_ext (py ''stories'') = [py ''a.json'', py ''b.json'', py ''c.json'']"
    by (simp add: sample_ext_def)
  have names: "path_stem sample_ext (py ''b.json'') = py ''b''"
    "path_stem sample_ext (py ''c.json'') = py ''c''"
    "path_name sample_ext (py ''b.json'') = py ''b.json''"
    by (simp_all add: sample_ext_def py_def)
  from batch_isolates_failures [of sample_ext "py ''out''" "py ''stories''"]
  obtain es results where
    run: "batch_process_stories sample_ext (py ''out'') (py ''stories'') = (es, Inr results)" and
    dom: "dom results = path_stem sample_ext ` set (glob_json sample_ext (py ''stories''))" and
    each: "\<forall>f\<in>set (glob_json sample_ext (py ''stories'')).
        (\<exists>before after.
           es = before @ fst (process_story_from_file sample_ext (py ''out'') f) @ after) \<and>
        (\<forall>e. snd (process_story_from_file sample_ext (py ''out'') f) = Inl e \<longrightarrow>
           Print (ErrorProcessing (path_name sample_ext f) e) \<in> set es) \<and>
        (distinct (map (path_stem sample_ext) (glob_json sample_ext (py ''stories''))) \<longrightarrow>
           results (path_stem sample_ext f) =
             Some (case snd (process_story_from_file sample_ext (py ''out'') f) of
                     Inl e \<Rightarrow> []
                   | Inr files \<Rightarrow> files))"
    by (elim exE conjE)
  have "py ''b.json'' \<in> set (glob_json sample_ext (py ''stories''))" by (simp add: fs)
  with each have
    "(\<forall>e. snd (process_story_from_file sample_ext (py ''out'') (py ''b.json'')) = Inl e \<longrightarrow>
           Print (ErrorProcessing (path_name sample_ext (py ''b.json'')) e) \<in> set es) \<and>
     (distinct (map (path_stem sample_ext) (glob_json sample_ext (py ''stories''))) \<longrightarrow>
           results (path_stem sample_ext (py ''b.json'')) =
             Some (case snd (process_story_from_file sample_ext (py ''out'') (py ''b.json'')) of
                     Inl e \<Rightarrow> []
                   | Inr files \<Rightarrow> files))"
    by blast
  then have b: "results (py ''b'') = Some [] \<and>
      Print (ErrorProcessing (py ''b.json'') (ExternalError (py ''bad''))) \<in> set es"
    using d unfolding sample_file_b names by simp
  have "py ''c.json'' \<in> set (glob_json sample_ext (py ''stories''))" by (simp add: fs)
  with each have
    "distinct (map (path_stem sample_ext) (glob_json sample_ext (py ''stories''))) \<longrightarrow>
           results (path_stem sample_ext (py ''c.json'')) =
             Some (case snd (process_story_from_file sample_ext (py ''out'') (py ''c.json'')) of
                     Inl e \<Rightarrow> []
                   | Inr files \<Rightarrow> files)"
    by blast
  then have c: "results (py ''c'') =
      Some [py ''out/c_segment_001.wav'', py ''out/c_segment_003.wav'']"
    using d unfolding sample_file_c names by simp
  have "dom results = {py ''a'', py ''b'', py ''c''}"
    using dom sample_stems by (metis list.set_map list.simps(15) empty_set)
  then show ?thesis using d run b c by blast
qed

text \<open>
  Claim C8. When \<open>process_war_story\<close> returns, the voice style it announced for each
  segment that is not blank is the segment's \<open>voice_style\<close> when present, otherwise
  \<open>settings.voice_style\<close> of the document when present, otherwise \<open>neutral\<close>; and the
  synthesis model was called, for each such segment, with the segment's text, with the
  audio prompt of the segment when present and otherwise that of the settings (no prompt
  when the resolved one is absent or empty), and with the preset of the resolved style
  updated by the segment's \<open>tts_params\<close>.
\<close>

theorem style_and_prompt_precedence:
  assumes "process_war_story ext out doc name = (es, Inr files)"
  shows "announced_styles es =
           map (effective_voice_style doc) (filter (\<lambda>seg. \<not> blank seg) (segments_of doc)) \<and>
         synthesis_calls es =
           map (synthesis_request doc) (filter (\<lambda>seg. \<not> blank seg) (segments_of doc))"
  using process_war_story_Inr [OF assms]
  by (simp add: map_spoken_enumerate)

text \<open>
  The same document: the first segment takes style and prompt from the settings, the third
  has its own.
\<close>

theorem style_and_prompt_precedence_witness:
  "snd (process_war_story sample_ext (py ''out'') sample_doc (py ''demo'')) =
     Inr [py ''out/demo_segment_001.wav'', py ''out/demo_segment_003.wav''] \<and>
   announced_styles (fst (process_war_story sample_ext (py ''out'') sample_doc (py ''demo''))) =
     [py ''calm'', py ''epic''] \<and>
   map (\<lambda>(t, p, ps). (t, p))
     (synthesis_calls (fst (process_war_story sample_ext (py ''out'') sample_doc (py ''demo'')))) =
     [(py ''Hi'', Some (py ''ref.wav'')), (py ''Yo'', Some (py ''own.wav''))]"
proof -
  note t = style_and_prompt_precedence [OF sample_run_pair]
  have spoken: "filter (\<lambda>seg. \<not> blank seg) (segments_of sample_doc) =
      [\<lparr>seg_text = Some (py ''Hi''), seg_voice_style = None,
         seg_audio_prompt = None, seg_tts_params = None\<rparr>,
       \<lparr>seg_text = Some (py ''Yo''), seg_voice_style = Some (py ''epic''),
         seg_audio_prompt = Some (py ''own.wav''), seg_tts_params = None\<rparr>]"
    by (simp add: segments_of_def sample_doc_def blank_def py_def strip_def is_space_def)
  have a: "announced_styles
      (fst (process_war_story sample_ext (py ''out'') sample_doc (py ''demo''))) =
      [py ''calm'', py ''epic'']"
    unfolding t [THEN conjunct1] spoken
    by (simp add: effective_voice_style_def sample_doc_def)
  have c: "map (\<lambda>(t, p, ps). (t, p))
     (synthesis_calls (fst (process_war_story sample_ext (py ''out'') sample_doc (py ''demo'')))) =
     [(py ''Hi'', Some (py ''ref.wav'')), (py ''Yo'', Some (py ''own.wav''))]"
    unfolding t [THEN conjunct2] spoken
    by (simp add: synthesis_request_def effective_audio_prompt_def truthy_def sample_doc_def)
       (simp add: py_def)
  show ?thesis using sample_run a c by simp
qed

text \<open>
  Claim C9 says that a supplied audio prompt whose file does not exist makes the program
  print a warning and go on without voice cloning. In \<open>auto_mode\<close> no warning is printed:
  the run below, with a prompt path that does not exist, succeeds and prints neither line
  of the warning.
\<close>

theorem auto_mode_prints_no_warning:
  "\<not> path_exists sample_ext (py ''missing.wav'') \<and>
   Print (AudioPromptNotFound (py ''missing.wav'')) \<notin>
     set (fst (auto_mode sample_ext (py ''story.txt'') (Some (py ''missing.wav'')) (py ''cpu''))) \<and>
   Print ProceedingWithoutCloning \<notin>
     set (fst (auto_mode sample_ext (py ''story.txt'') (Some (py ''missing.wav'')) (py ''cpu''))) \<and>
   snd (auto_mode sample_ext (py ''story.txt'') (Some (py ''missing.wav'')) (py ''cpu'')) = Inr ()"
proof -
  have a: "path_exists sample_ext (py ''story.txt'')" by (simp add: sample_ext_def)
  have m: "\<not> path_exists sample_ext (py ''missing.wav'')" by (simp add: sample_ext_def py_def)
  have b: "read_text sample_ext (py ''story.txt'') = Inr five_paragraphs"
    by (simp add: sample_ext_def)
  have c: "ingest_length no_kwargs = DEFAULT_SEGMENT_LENGTH"
    by (simp add: ingest_length_def no_kwargs_def)
  have d: "ingest_pattern no_kwargs = DEFAULT_VOICE_PATTERN"
    by (simp add: ingest_pattern_def no_kwargs_def)
  have e: "save_story_json sample_ext no_kwargs doc = ok ()" for doc
    by (simp add: save_story_json_def no_kwargs_def)
  have ingest: "auto_ingest_text_file sample_ext (py ''story.txt'') no_kwargs =
      ([Print (ReadingTextFile (py ''story.txt'')), Print (SplittingText DEFAULT_SEGMENT_LENGTH),
        Print (GeneratedSegments 1)],
       Inr auto_doc)"
    unfolding auto_ingest_text_file_def auto_doc_def
    by (simp add: a b c d e text_250 bind_def emit_def lift_def ok_def cycled_segment_def
        DEFAULT_VOICE_PATTERN_def Let_def)
       (simp add: sample_ext_def)
  have war: "process_war_story sample_ext DEFAULT_OUTPUT_DIR auto_doc (py ''story'') =
      (fst (process_war_story sample_ext DEFAULT_OUTPUT_DIR auto_doc (py ''story'')),
       Inr [py ''voice_output/story_segment_001.wav''])"
    using auto_doc_run by (rule run_eqI)
  have stem: "path_stem sample_ext (py ''story.txt'') = py ''story''"
    by (simp add: sample_ext_def py_def)
  have init: "StoryNarrator_init sample_ext (py ''cpu'') DEFAULT_OUTPUT_DIR =
      ([Mkdir DEFAULT_OUTPUT_DIR, Print LoadingModel, LoadModel (py ''cpu''), Print ModelLoaded],
       Inr ())"
    by (simp add: StoryNarrator_init_def AudioGenerator_init_def bind_def emit_def call_def
        sample_ext_def)
  have direct: "process_text_file_directly sample_ext DEFAULT_OUTPUT_DIR (py ''story.txt'') None
        no_kwargs =
      ([Print (ReadingTextFile (py ''story.txt'')), Print (SplittingText DEFAULT_SEGMENT_LENGTH),
        Print (GeneratedSegments 1)] @
       fst (process_war_story sample_ext DEFAULT_OUTPUT_DIR auto_doc (py ''story'')),
       Inr [py ''voice_output/story_segment_001.wav''])"
    unfolding process_text_file_directly_def ingest
    by (subst bind_def) (simp add: stem, subst war, simp)
  have run: "auto_mode sample_ext (py ''story.txt'') (Some (py ''missing.wav'')) (py ''cpu'') =
      (Print (ProcessingLargeText (py ''story.txt'')) #
       [Mkdir DEFAULT_OUTPUT_DIR, Print LoadingModel, LoadModel (py ''cpu''), Print ModelLoaded] @
       ([Print (ReadingTextFile (py ''story.txt'')), Print (SplittingText DEFAULT_SEGMENT_LENGTH),
        Print (GeneratedSegments 1)] @
        fst (process_war_story sample_ext DEFAULT_OUTPUT_DIR auto_doc (py ''story''))) @
       [Print (GeneratedAudioFiles 1)], Inr ())"
    unfolding auto_mode_def
    by (simp add: a m init direct bind_def emit_def)
  show ?thesis
    using auto_doc_trace [of "py ''missing.wav''"] m
    by (simp add: run)
qed

text \<open>
  Claim C9, amended. In \<open>auto_mode\<close>, an audio-prompt path whose file does not exist is
  dropped by the existence test: the run is the run without a prompt, and no call of the
  synthesis model carries an audio prompt. \<open>validate_audio_prompt\<close>, given such a path,
  prints the two lines of the warning and returns \<open>False\<close>.
\<close>

theorem missing_prompt_is_dropped:
  assumes "\<not> path_exists ext prompt"
  shows "auto_mode ext input_file (Some prompt) device = auto_mode ext input_file None device \<and>
         no_cloning (fst (auto_mode ext input_file (Some prompt) device)) \<and>
         validate_audio_prompt ext (Some prompt) =
           ([Print (AudioPromptNotFound prompt), Print ProceedingWithoutCloning], Inr False)"
proof -
  have same: "auto_mode ext input_file (Some prompt) device = auto_mode ext input_file None device"
    using assms by (simp add: auto_mode_def)
  have "validate_audio_prompt ext (Some prompt) =
           ([Print (AudioPromptNotFound prompt), Print ProceedingWithoutCloning], Inr False)"
    using assms by (simp add: validate_audio_prompt_def bind_def emit_def ok_def)
  then show ?thesis
    using same no_cloning_auto_mode_None [of ext input_file device] by simp
qed

text \<open>The same run.\<close>

theorem missing_prompt_is_dropped_witness:
  "\<not> path_exists sample_ext (py ''missing.wav'') \<and>
   auto_mode sample_ext (py ''story.txt'') (Some (py ''missing.wav'')) (py ''cpu'') =
     auto_mode sample_ext (py ''story.txt'') None (py ''cpu'') \<and>
   no_cloning (fst (auto_mode sample_ext (py ''story.txt'') (Some (py ''missing.wav''))
     (py ''cpu''))) \<and>
   validate_audio_prompt sample_ext (Some (py ''missing.wav'')) =
     ([Print (AudioPromptNotFound (py ''missing.wav'')), Print ProceedingWithoutCloning],
      Inr False)"
proof -
  have h: "\<not> path_exists sample_ext (py ''missing.wav'')"
    by (simp add: sample_ext_def py_def)
  from missing_prompt_is_dropped [OF h, of "py ''story.txt''" "py ''cpu''"] h
  show ?thesis by blast
qed

text \<open>
  Claim C10. For a \<open>voice_style\<close> that is neither \<open>neutral\<close> nor \<open>calm\<close>,
  \<open>generate_segment_audio\<close> raises nothing of its own and does what it does for \<open>neutral\<close>:
  it calls the synthesis model once, with the parameters of the neutral preset updated by
  \<open>custom_params\<close>, and returns what that call returns.
\<close>

theorem unknown_style_is_neutral:
  assumes "voice_style \<noteq> py ''neutral''" and "voice_style \<noteq> py ''calm''"
  shows "generate_segment_audio ext text voice_style prompt custom =
           generate_segment_audio ext text (py ''neutral'') prompt custom \<and>
         generate_segment_audio ext text voice_style prompt custom =
           (let ps = [py ''exaggeration'' \<mapsto> 5 / 10, py ''cfg_weight'' \<mapsto> 5 / 10] ++
                       (case custom of None \<Rightarrow> Map.empty | Some c \<Rightarrow> c);
                p = (if truthy prompt then prompt else None)
            in ([Generate text p ps], model_generate ext text p ps))"
  using assms by (simp add: generate_segment_audio_eq preset_of_def neutral_preset_def neutral_neq_calm)

text \<open>The style \<open>epic\<close>.\<close>

theorem unknown_style_is_neutral_witness:
  "py ''epic'' \<noteq> py ''neutral'' \<and> py ''epic'' \<noteq> py ''calm'' \<and>
   generate_segment_audio sample_ext (py ''Hi'') (py ''epic'') None None =
     generate_segment_audio sample_ext (py ''Hi'') (py ''neutral'') None None \<and>
   snd (generate_segment_audio sample_ext (py ''Hi'') (py ''epic'') None None) = Inr (py ''Hi'')"
proof -
  have h1: "py ''epic'' \<noteq> py ''neutral''" by (simp add: py_def)
  have h2: "py ''epic'' \<noteq> py ''calm''" by (simp add: py_def)
  note t = unknown_style_is_neutral [OF h1 h2, of sample_ext "py ''Hi''" None None]
  from t [THEN conjunct2]
  have "snd (generate_segment_audio sample_ext (py ''Hi'') (py ''epic'') None None) =
      Inr (py ''Hi'')"
    by (simp add: truthy_def sample_ext_def)
  then show ?thesis using h1 h2 t [THEN conjunct1] by blast
qed

end
